theory Spec2Isabelle
  imports Main
begin

section \<open>Data model (the shared type declarations of the frontend)\<close>

datatype DoorStatus = Locked | Unlocked

datatype RecognitionStatus = Idle | Scanning | Recognized | Unknown

text \<open>
  \<open>AutoRecognitionState\<close>: the control block of the recognition loop. JavaScript numbers
  that hold counters and \<open>Date.now()\<close> readings are integers; \<open>cooldownUntil\<close> is
  \<open>number | null\<close>.
\<close>

record AutoRecognitionState =
  isActive :: bool
  attemptCount :: int
  maxAttempts :: int
  cooldownUntil :: "int option"
  lastAttempt :: int

record FaceRecognitionResult =
  recognized :: bool
  name :: "string option"
  best_variation :: "string option"

text \<open>\<open>ApiResponse<T>\<close>; \<open>result\<close> is optional.\<close>

record 'a ApiResponse =
  success :: bool
  message :: string
  result :: "'a option"

text \<open>What an \<open>await\<close> on a promise yields: the promise rejects (the call throws) or
  is fulfilled with a value.\<close>

datatype 'a Awaited = Rejected | Fulfilled 'a

datatype DetectedFace = DetectedFace (detection: nat) (descriptor: "nat list option")

text \<open>The fields of the \<open>HTMLVideoElement\<close> that the code reads.\<close>

record Video =
  paused :: bool
  ended :: bool
  readyState :: nat
  videoWidth :: nat
  videoHeight :: nat

text \<open>
  The temporary canvas of a capture: whether \<open>getContext("2d")\<close> returns a context,
  whether drawing or encoding throws, and the data URL that \<open>toDataURL\<close> returns for a
  canvas of the given width and height.
\<close>

record Canvas =
  hasContext2d :: bool
  drawThrows :: bool
  toDataURL :: "nat \<Rightarrow> nat \<Rightarrow> string"

text \<open>An entry of \<open>VARIATION_TYPES\<close>; the field \<open>val\<close> is the source's \<open>value\<close>. The
  Vietnamese labels and descriptions are written here without their diacritics.\<close>

record VariationEntry =
  val :: string
  label :: string
  description :: string

definition VARIATION_TYPES :: "VariationEntry list" where
  "VARIATION_TYPES =
    [\<lparr>val = ''default'', label = ''Mac dinh'', description = ''Anh thuong, nhin thang''\<rparr>,
     \<lparr>val = ''with_glasses'', label = ''Deo kinh'', description = ''Anh co deo kinh''\<rparr>,
     \<lparr>val = ''no_glasses'', label = ''Khong kinh'', description = ''Anh khong deo kinh''\<rparr>,
     \<lparr>val = ''left_angle'', label = ''Goc trai'', description = ''Nghieng dau sang trai 15-30''\<rparr>,
     \<lparr>val = ''right_angle'', label = ''Goc phai'', description = ''Nghieng dau sang phai 15-30''\<rparr>,
     \<lparr>val = ''slight_smile'', label = ''Mim cuoi'', description = ''Anh co nu cuoi nhe''\<rparr>,
     \<lparr>val = ''serious'', label = ''Nghiem tuc'', description = ''Anh bieu cam nghiem tuc''\<rparr>]"

section \<open>The page component's state\<close>

text \<open>
  The state of \<open>SmartDoorSystemContent\<close> that the recognition loop and the detection
  poller read and write, together with the camera context's \<open>isStreaming\<close>,
  \<open>modelsLoaded\<close>, \<open>cameraError\<close> and the two element refs. A timer ref is \<open>True\<close>
  exactly when it holds a live interval.
\<close>

record PageState =
  videoRef :: "Video option"
  canvasRef :: bool
  isStreaming :: bool
  modelsLoaded :: bool
  cameraError :: string
  detectedFaces :: "DetectedFace list"
  recognitionStatus :: RecognitionStatus
  doorStatus :: DoorStatus
  autoRecognition :: AutoRecognitionState
  detectionIntervalRef :: bool
  autoRecognitionIntervalRef :: bool

text \<open>The callbacks handed to \<open>setTimeout\<close> by the recognition loop.\<close>

datatype Timeout = RemoveNotification | BackToIdle | Relock

text \<open>
  A recognition request that has been issued and not yet answered: the continuation of
  \<open>performAutoRecognition\<close> after its \<open>await\<close>. It holds what the closure captured
  before suspending: \<open>now\<close>, the image, and the \<open>attemptCount\<close> and \<open>maxAttempts\<close> it
  had read.
\<close>

record Attempt =
  reqNow :: int
  reqImage :: string
  seenAttemptCount :: int
  seenMaxAttempts :: int

section \<open>Device resource manager: frame capture\<close>

text \<open>\<open>captureImage\<close> of the camera context, the one the page component calls.\<close>

definition captureImage :: "Video option \<Rightarrow> bool \<Rightarrow> Canvas \<Rightarrow> string option" where
  "captureImage vref streaming cv =
    (case vref of
       None \<Rightarrow> None
     | Some v \<Rightarrow>
         if \<not> streaming then None
         else if paused v then None
         else if ended v then None
         else if readyState v < 2 then None
         else if videoWidth v = 0 then None
         else if videoHeight v = 0 then None
         else if \<not> hasContext2d cv then None
         else if drawThrows cv then None
         else Some (toDataURL cv (videoWidth v) (videoHeight v)))"

text \<open>
  \<open>captureImage\<close> of the \<open>useCamera\<close> hook (used by the \<open>CameraView\<close> component). It has
  no \<open>try\<close>: an exception of the canvas leaves the function, here \<open>Inl\<close>.
\<close>

datatype CaptureError = CanvasException

definition captureImage_hook ::
  "Video option \<Rightarrow> bool \<Rightarrow> Canvas \<Rightarrow> CaptureError + string option" where
  "captureImage_hook vref streaming cv =
    (case vref of
       None \<Rightarrow> Inr None
     | Some v \<Rightarrow>
         if \<not> streaming then Inr None
         else if \<not> hasContext2d cv then Inr None
         else if drawThrows cv then Inl CanvasException
         else Inr (Some (toDataURL cv
                (if videoWidth v = 0 then 640 else videoWidth v)
                (if videoHeight v = 0 then 480 else videoHeight v))))"

text \<open>
  The callers test the captured image with \<open>!imageBase64\<close>: \<open>null\<close> and the empty string
  are falsy.
\<close>

definition gotImage :: "string option \<Rightarrow> bool" where
  "gotImage x = (case x of None \<Rightarrow> False | Some img \<Rightarrow> img \<noteq> [])"

section \<open>Recognition attempt controller\<close>

definition setAutoRecognition ::
  "(AutoRecognitionState \<Rightarrow> AutoRecognitionState) \<Rightarrow> PageState \<Rightarrow> PageState" where
  "setAutoRecognition f st = st\<lparr>autoRecognition := f (autoRecognition st)\<rparr>"

definition startAutoRecognition :: "PageState \<Rightarrow> PageState" where
  "startAutoRecognition st =
    setAutoRecognition (\<lambda>prev. prev\<lparr>isActive := True, attemptCount := 0, cooldownUntil := None\<rparr>) st"

definition stopAutoRecognition :: "PageState \<Rightarrow> PageState" where
  "stopAutoRecognition st =
    (setAutoRecognition
       (\<lambda>prev. prev\<lparr>isActive := False, attemptCount := 0, cooldownUntil := None\<rparr>) st)
      \<lparr>autoRecognitionIntervalRef := False\<rparr>"

text \<open>
  JavaScript's \<open>cooldownUntil && now < cooldownUntil\<close>: \<open>null\<close> and \<open>0\<close> are falsy.
\<close>

definition inCooldown :: "int option \<Rightarrow> int \<Rightarrow> bool" where
  "inCooldown cu now =
    (case cu of None \<Rightarrow> False | Some c \<Rightarrow> if c = 0 then False else now < c)"

text \<open>
  \<open>performAutoRecognition\<close> up to its \<open>await\<close>. The function reads the state through the
  variables of the render that created it (\<open>seen\<close>) and writes through the state setters,
  which act on the current state (\<open>st\<close>); \<open>now\<close> is \<open>Date.now()\<close>. The result is the new
  state and the request that was issued, if any. When \<open>captureImage\<close> returns \<open>null\<close>
  (or an empty string) the \<open>throw\<close> lands in the \<open>catch\<close>, which sets the status back to
  idle.
\<close>

definition performAutoRecognition ::
  "PageState \<Rightarrow> PageState \<Rightarrow> int \<Rightarrow> Canvas \<Rightarrow> PageState \<times> Attempt option" where
  "performAutoRecognition seen st now cv =
    (if \<not> isStreaming seen then (st, None)
     else if length (detectedFaces seen) = 0 then (st, None)
     else if recognitionStatus seen = Scanning then (st, None)
     else if inCooldown (cooldownUntil (autoRecognition seen)) now then (st, None)
     else if attemptCount (autoRecognition seen) \<ge> maxAttempts (autoRecognition seen) then
       (setAutoRecognition (\<lambda>prev. prev\<lparr>cooldownUntil := Some (now + 30000), attemptCount := 0\<rparr>) st,
        None)
     else if now - lastAttempt (autoRecognition seen) < 2000 then (st, None)
     else
       (case captureImage (videoRef st) (isStreaming seen) cv of
          None \<Rightarrow> (st\<lparr>recognitionStatus := Idle\<rparr>, None)
        | Some img \<Rightarrow>
            if img = [] then (st\<lparr>recognitionStatus := Idle\<rparr>, None)
            else
              (st\<lparr>recognitionStatus := Scanning\<rparr>,
               Some \<lparr>reqNow = now, reqImage = img,
                     seenAttemptCount = attemptCount (autoRecognition seen),
                     seenMaxAttempts = maxAttempts (autoRecognition seen)\<rparr>)))"

text \<open>
  The rest of \<open>performAutoRecognition\<close>, run when the recognition call settles. The
  result is the new state and the timeouts scheduled, each with its delay in
  milliseconds. \<open>result.success && result.result\<close> is truthy when \<open>success\<close> holds and a
  result is present; otherwise no branch runs after the attempt has been counted.
\<close>

definition performAutoRecognition_resume ::
  "Attempt \<Rightarrow> FaceRecognitionResult ApiResponse Awaited \<Rightarrow> PageState \<Rightarrow> PageState \<times> (int \<times> Timeout) list" where
  "performAutoRecognition_resume a outcome st =
    (case outcome of
       Rejected \<Rightarrow> (st\<lparr>recognitionStatus := Idle\<rparr>, [])
     | Fulfilled r \<Rightarrow>
         (let st1 = setAutoRecognition
                (\<lambda>prev. prev\<lparr>attemptCount := attemptCount prev + 1, lastAttempt := reqNow a\<rparr>) st
          in case (if success r then result r else None) of
               None \<Rightarrow> (st1, [])
             | Some res \<Rightarrow>
                 if recognized res then
                   (stopAutoRecognition (st1\<lparr>recognitionStatus := Recognized, doorStatus := Unlocked\<rparr>),
                    [(3000, RemoveNotification), (5000, Relock)])
                 else
                   (st1\<lparr>recognitionStatus := Unknown\<rparr>,
                    (if seenAttemptCount a \<ge> seenMaxAttempts a - 1
                     then [(3000, RemoveNotification)] else [])
                    @ [(1000, BackToIdle)])))"

definition fireTimeout :: "Timeout \<Rightarrow> PageState \<Rightarrow> PageState" where
  "fireTimeout t st =
    (case t of
       RemoveNotification \<Rightarrow> st
     | BackToIdle \<Rightarrow> st\<lparr>recognitionStatus := Idle\<rparr>
     | Relock \<Rightarrow> st\<lparr>doorStatus := Locked, recognitionStatus := Idle\<rparr>)"

text \<open>The body of the effect that installs and clears the scheduling interval of the
  loop (with its cleanup, which clears the previous interval).\<close>

definition autoRecognitionEffect :: "PageState \<Rightarrow> PageState" where
  "autoRecognitionEffect st =
    (if isActive (autoRecognition st) \<and> isStreaming st \<and> modelsLoaded st
     then st\<lparr>autoRecognitionIntervalRef := True\<rparr>
     else st\<lparr>autoRecognitionIntervalRef := False\<rparr>)"

text \<open>The body of the effect that installs and clears the 300 ms detection interval.\<close>

definition detectionEffect :: "PageState \<Rightarrow> PageState" where
  "detectionEffect st =
    (if isStreaming st \<and> modelsLoaded st
     then st\<lparr>detectionIntervalRef := True\<rparr>
     else st\<lparr>detectionIntervalRef := False\<rparr>)"

text \<open>\<open>stopStream\<close> of the camera context, on the state the page shares with it.\<close>

definition stopStream :: "PageState \<Rightarrow> PageState" where
  "stopStream st = st\<lparr>isStreaming := False, cameraError := []\<rparr>"

section \<open>Detection poller\<close>

text \<open>
  \<open>detectFaces\<close> of the page up to its \<open>await\<close>: \<open>True\<close> when a detection pass is begun.
  The refs are read live, \<open>modelsLoaded\<close> and \<open>isStreaming\<close> through the closure.
\<close>

definition detectFaces :: "PageState \<Rightarrow> PageState \<Rightarrow> bool" where
  "detectFaces seen st =
    (case videoRef st of
       None \<Rightarrow> False
     | Some v \<Rightarrow>
         if \<not> canvasRef st then False
         else if \<not> modelsLoaded seen then False
         else if \<not> isStreaming seen then False
         else if videoWidth v = 0 then False
         else if videoHeight v = 0 then False
         else if readyState v < 2 then False
         else True)"

text \<open>
  The rest of \<open>detectFaces\<close>, when the detector settles. A rejection, or a ref that has
  become \<open>null\<close> meanwhile (a \<open>TypeError\<close>), lands in the \<open>catch\<close>, which only logs.
\<close>

definition detectFaces_resume :: "DetectedFace list Awaited \<Rightarrow> PageState \<Rightarrow> PageState" where
  "detectFaces_resume outcome st =
    (case outcome of
       Rejected \<Rightarrow> st
     | Fulfilled ds \<Rightarrow>
         (case videoRef st of
            None \<Rightarrow> st
          | Some v \<Rightarrow> if canvasRef st then st\<lparr>detectedFaces := ds\<rparr> else st))"

text \<open>The \<open>useFaceDetection\<close> hook: its own state, \<open>startDetection\<close> and \<open>stopDetection\<close>.\<close>

record FaceDetectionHook =
  hookModelsLoaded :: bool
  hookDetectedFaces :: "DetectedFace list"
  hookIntervalRef :: bool

definition startDetection :: "FaceDetectionHook \<Rightarrow> FaceDetectionHook" where
  "startDetection h =
    (if hookModelsLoaded h \<and> \<not> hookIntervalRef h then h\<lparr>hookIntervalRef := True\<rparr> else h)"

definition stopDetection :: "FaceDetectionHook \<Rightarrow> FaceDetectionHook" where
  "stopDetection h = h\<lparr>hookIntervalRef := False, hookDetectedFaces := []\<rparr>"

text \<open>\<open>detectFaces\<close> of the hook up to its \<open>await\<close>.\<close>

definition detectFaces_hook :: "Video option \<Rightarrow> bool \<Rightarrow> FaceDetectionHook \<Rightarrow> bool" where
  "detectFaces_hook vref cref h =
    (case vref of
       None \<Rightarrow> False
     | Some v \<Rightarrow> if \<not> cref then False else if \<not> hookModelsLoaded h then False else True)"

section \<open>Enrollment sequencer\<close>

record EnrollState =
  isCapturingVariations :: bool
  currentVariationIndex :: nat
  capturedVariations :: "string list"
  personNameForVariations :: string

text \<open>
  What a handler of the sequencer waits for at its \<open>await\<close>: the answer of
  \<open>addFaceVariation\<close> to the request made for the catalog entry the handler has read
  (its \<open>currentVariationType\<close>), or the end of \<open>fetchFaces\<close>.
\<close>

datatype Pending = AddVariation VariationEntry | FetchFaces

definition startMultiVariationCapture :: "string \<Rightarrow> EnrollState \<Rightarrow> EnrollState" where
  "startMultiVariationCapture personName st =
    st\<lparr>personNameForVariations := personName, isCapturingVariations := True,
       currentVariationIndex := 0, capturedVariations := []\<rparr>"

text \<open>
  \<open>finishMultiVariationCapture\<close> closes the session and awaits \<open>fetchFaces\<close>, which
  catches every failure and so always returns; the name, the index and the list are
  reset only after that, in \<open>finishMultiVariationCapture_resume\<close>.
\<close>

definition finishMultiVariationCapture :: "EnrollState \<Rightarrow> EnrollState \<times> Pending" where
  "finishMultiVariationCapture st = (st\<lparr>isCapturingVariations := False\<rparr>, FetchFaces)"

definition finishMultiVariationCapture_resume :: "EnrollState \<Rightarrow> EnrollState" where
  "finishMultiVariationCapture_resume st =
    st\<lparr>personNameForVariations := [], currentVariationIndex := 0, capturedVariations := []\<rparr>"

text \<open>
  \<open>addFaceVariation\<close> of the face-management hook: \<open>true\<close> when the service answers
  with \<open>success\<close>; a response without \<open>success\<close> and a rejected call both end in its
  \<open>catch\<close>, which returns \<open>false\<close>.
\<close>

definition addFaceVariation :: "unit ApiResponse Awaited \<Rightarrow> bool" where
  "addFaceVariation outcome =
    (case outcome of Rejected \<Rightarrow> False | Fulfilled r \<Rightarrow> success r)"

text \<open>
  \<open>captureNextVariation\<close> up to its \<open>await\<close>: \<open>seen\<close> is the render whose handler runs,
  \<open>st\<close> the state the setters update, and the camera arguments are those of
  \<open>captureImage\<close>. The result is the state and what the handler now waits for, if
  anything: past the catalog it calls \<open>finishMultiVariationCapture\<close>; without a frame it
  returns; otherwise it sends the frame for the entry at the index it has read.
\<close>

definition captureNextVariation ::
  "EnrollState \<Rightarrow> EnrollState \<Rightarrow> Video option \<Rightarrow> bool \<Rightarrow> Canvas
    \<Rightarrow> EnrollState \<times> Pending option" where
  "captureNextVariation seen st vref streaming cv =
    (if currentVariationIndex seen \<ge> length VARIATION_TYPES then
       (case finishMultiVariationCapture st of (st', p) \<Rightarrow> (st', Some p))
     else
       (case captureImage vref streaming cv of
          None \<Rightarrow> (st, None)
        | Some img \<Rightarrow>
            if img = [] then (st, None)
            else (st, Some (AddVariation (VARIATION_TYPES ! currentVariationIndex seen)))))"

text \<open>
  \<open>captureNextVariation\<close> after its \<open>await\<close>, when the enrollment service has answered
  the request made for \<open>currentVariationType\<close>: on success the entry's value is appended
  to the list and one is added to the index, both as they are when the answer arrives
  (the setters are called with updater functions).
\<close>

definition captureNextVariation_resume ::
  "VariationEntry \<Rightarrow> unit ApiResponse Awaited \<Rightarrow> EnrollState \<Rightarrow> EnrollState" where
  "captureNextVariation_resume currentVariationType outcome st =
    (if addFaceVariation outcome then
       st\<lparr>capturedVariations := capturedVariations st @ [val currentVariationType],
          currentVariationIndex := currentVariationIndex st + 1\<rparr>
     else st)"

section \<open>The event loop around the component\<close>

text \<open>
  The component together with what is pending in the browser: the render whose
  \<open>performAutoRecognition\<close> the scheduling interval calls, recognition requests in flight,
  timeouts not yet fired (with the time they are due), detection passes in flight, and
  the number of recognition requests issued so far.
\<close>

record Sys =
  page :: PageState
  tickClosure :: PageState
  inFlight :: "Attempt list"
  timers :: "(int \<times> Timeout) list"
  detecting :: nat
  requestsIssued :: nat

datatype Event =
    Tick int Canvas
  | Settle nat int "FaceRecognitionResult ApiResponse Awaited"
  | Fire nat
  | DetectTick
  | DetectSettle "DetectedFace list Awaited"
  | ClickStart
  | ClickStop
  | StopStream
  | StreamStarted
  | ModelsReady

definition dropNth :: "nat \<Rightarrow> 'a list \<Rightarrow> 'a list" where
  "dropNth i xs = take i xs @ drop (Suc i) xs"

text \<open>
  One event of the single-threaded loop. An interval callback runs only while its
  interval is installed. The callback of the scheduling interval is the
  \<open>performAutoRecognition\<close> that was handed to \<open>setInterval\<close>: it reads the state
  variables of the render in which the effect installed it (\<open>tickClosure\<close>), and its
  setters act on the current state. \<open>detectFaces\<close> is a dependency of its effect, so the
  detection interval always calls the current one. \<open>Settle i t outcome\<close> is the answer,
  at time \<open>t\<close>, to the \<open>i\<close>-th request in flight; \<open>Fire i\<close> runs the \<open>i\<close>-th pending
  timeout. \<open>StreamStarted\<close> is the \<open>setIsStreaming(true)\<close> that ends a \<open>startStream\<close>,
  whoever has called it: the camera button, \<open>switchCamera\<close>, or the page's auto-start
  effect, which calls \<open>startStream\<close> by itself whenever \<open>isStreaming\<close> is false while
  \<open>autoStartCamera\<close> (initially true) holds, the models are loaded and a camera is known.
\<close>

fun handleEvent :: "Event \<Rightarrow> Sys \<Rightarrow> Sys" where
  "handleEvent (Tick now cv) s =
    (if autoRecognitionIntervalRef (page s) then
       (case performAutoRecognition (tickClosure s) (page s) now cv of
          (p, None) \<Rightarrow> s\<lparr>page := p\<rparr>
        | (p, Some a) \<Rightarrow>
            s\<lparr>page := p, inFlight := inFlight s @ [a], requestsIssued := requestsIssued s + 1\<rparr>)
     else s)"
| "handleEvent (Settle i t outcome) s =
    (if i < length (inFlight s) then
       (case performAutoRecognition_resume (inFlight s ! i) outcome (page s) of
          (p, ts) \<Rightarrow>
            s\<lparr>page := p, inFlight := dropNth i (inFlight s),
              timers := timers s @ map (\<lambda>(d, k). (t + d, k)) ts\<rparr>)
     else s)"
| "handleEvent (Fire i) s =
    (if i < length (timers s) then
       s\<lparr>page := fireTimeout (snd (timers s ! i)) (page s), timers := dropNth i (timers s)\<rparr>
     else s)"
| "handleEvent DetectTick s =
    (if detectionIntervalRef (page s) then
       (if detectFaces (page s) (page s) then s\<lparr>detecting := detecting s + 1\<rparr> else s)
     else s)"
| "handleEvent (DetectSettle outcome) s =
    (if detecting s > 0 then
       s\<lparr>page := detectFaces_resume outcome (page s), detecting := detecting s - 1\<rparr>
     else s)"
| "handleEvent ClickStart s = s\<lparr>page := startAutoRecognition (page s)\<rparr>"
| "handleEvent ClickStop s = s\<lparr>page := stopAutoRecognition (page s)\<rparr>"
| "handleEvent StopStream s = s\<lparr>page := stopStream (page s)\<rparr>"
| "handleEvent StreamStarted s = s\<lparr>page := (page s)\<lparr>isStreaming := True\<rparr>\<rparr>"
| "handleEvent ModelsReady s = s\<lparr>page := (page s)\<lparr>modelsLoaded := True\<rparr>\<rparr>"

text \<open>
  After the handler, React renders and runs each effect whose dependencies have changed:
  \<open>[autoRecognition.isActive, isStreaming, modelsLoaded]\<close> for the scheduling interval,
  \<open>[isStreaming, modelsLoaded, detectFaces]\<close> for the detection interval, where
  \<open>detectFaces\<close> changes with \<open>modelsLoaded\<close> and \<open>isStreaming\<close>.
\<close>

definition autoRecognitionDeps :: "PageState \<Rightarrow> bool \<times> bool \<times> bool" where
  "autoRecognitionDeps p = (isActive (autoRecognition p), isStreaming p, modelsLoaded p)"

definition detectionDeps :: "PageState \<Rightarrow> bool \<times> bool" where
  "detectionDeps p = (isStreaming p, modelsLoaded p)"

definition renderEffects :: "PageState \<Rightarrow> PageState \<Rightarrow> PageState" where
  "renderEffects old new =
    (let p = (if detectionDeps new = detectionDeps old then new else detectionEffect new)
     in if autoRecognitionDeps new = autoRecognitionDeps old then p else autoRecognitionEffect p)"

text \<open>The effect of the scheduling interval has run and has installed a new interval.\<close>

definition intervalInstalled :: "PageState \<Rightarrow> PageState \<Rightarrow> bool" where
  "intervalInstalled old new =
    (if autoRecognitionDeps new = autoRecognitionDeps old then False
     else isActive (autoRecognition new) \<and> isStreaming new \<and> modelsLoaded new)"

definition step :: "Event \<Rightarrow> Sys \<Rightarrow> Sys" where
  "step ev s =
    (handleEvent ev s)
      \<lparr>page := renderEffects (page s) (page (handleEvent ev s)),
       tickClosure :=
         (if intervalInstalled (page s) (page (handleEvent ev s))
          then renderEffects (page s) (page (handleEvent ev s))
          else tickClosure (handleEvent ev s))\<rparr>"

fun run :: "Event list \<Rightarrow> Sys \<Rightarrow> Sys" where
  "run [] s = s"
| "run (ev # evs) s = run evs (step ev s)"

text \<open>The timer refs agree with what their effects last decided.\<close>

definition effectsSettled :: "PageState \<Rightarrow> bool" where
  "effectsSettled p =
    (autoRecognitionIntervalRef p = (isActive (autoRecognition p) \<and> isStreaming p \<and> modelsLoaded p)
     \<and> detectionIntervalRef p = (isStreaming p \<and> modelsLoaded p))"

text \<open>The loop is stopped: inactive and without a scheduling interval.\<close>

definition loopStopped :: "Sys \<Rightarrow> bool" where
  "loopStopped s =
    (\<not> isActive (autoRecognition (page s)) \<and> \<not> autoRecognitionIntervalRef (page s))"

text \<open>The component as mounted: the initial values of its \<open>useState\<close> calls.\<close>

definition initialAutoRecognition :: AutoRecognitionState where
  "initialAutoRecognition =
    \<lparr>isActive = False, attemptCount = 0, maxAttempts = 10, cooldownUntil = None, lastAttempt = 0\<rparr>"

section \<open>The enrollment session in the event loop\<close>

text \<open>
  The sequencer's state together with the handlers that are waiting at an \<open>await\<close>.
  The overlay with the two buttons is rendered only while \<open>isCapturingVariations\<close>
  holds, and the capture button is enabled while the camera streams and a face is
  detected; it is not disabled while a request is pending. A click is handled by the
  render of the state it finds. \<open>Answer i outcome\<close> ends the \<open>i\<close>-th pending \<open>await\<close>;
  \<open>outcome\<close> is how the enrollment service has answered, and is not looked at when the
  \<open>await\<close> is that of \<open>fetchFaces\<close>. \<open>StartCapture\<close> is the call of
  \<open>startMultiVariationCapture\<close> and \<open>ClickSkip\<close> a click on the other button, whose
  handler is \<open>finishMultiVariationCapture\<close>.
\<close>

record EnrollSys =
  session :: EnrollState
  awaiting :: "Pending list"

datatype EnrollEvent =
    StartCapture string
  | ClickCapture "Video option" bool "DetectedFace list" Canvas
  | ClickSkip
  | Answer nat "unit ApiResponse Awaited"

fun enrollStep :: "EnrollEvent \<Rightarrow> EnrollSys \<Rightarrow> EnrollSys" where
  "enrollStep (StartCapture personName) s =
    s\<lparr>session := startMultiVariationCapture personName (session s)\<rparr>"
| "enrollStep (ClickCapture vref streaming faces cv) s =
    (if isCapturingVariations (session s) \<and> streaming \<and> faces \<noteq> [] then
       (case captureNextVariation (session s) (session s) vref streaming cv of
          (st, None) \<Rightarrow> s\<lparr>session := st\<rparr>
        | (st, Some p) \<Rightarrow> s\<lparr>session := st, awaiting := awaiting s @ [p]\<rparr>)
     else s)"
| "enrollStep ClickSkip s =
    (if isCapturingVariations (session s) then
       (case finishMultiVariationCapture (session s) of
          (st, p) \<Rightarrow> s\<lparr>session := st, awaiting := awaiting s @ [p]\<rparr>)
     else s)"
| "enrollStep (Answer i outcome) s =
    (if i < length (awaiting s) then
       (case awaiting s ! i of
          AddVariation currentVariationType \<Rightarrow>
            s\<lparr>session := captureNextVariation_resume currentVariationType outcome (session s),
              awaiting := dropNth i (awaiting s)\<rparr>
        | FetchFaces \<Rightarrow>
            s\<lparr>session := finishMultiVariationCapture_resume (session s),
              awaiting := dropNth i (awaiting s)\<rparr>)
     else s)"

fun enrollRun :: "EnrollEvent list \<Rightarrow> EnrollSys \<Rightarrow> EnrollSys" where
  "enrollRun [] s = s"
| "enrollRun (ev # evs) s = enrollRun evs (enrollStep ev s)"

text \<open>
  Capture rounds made one after the other: each is a click on the enabled capture
  button, with its camera situation, followed by the answer to that click's request
  before the next click.
\<close>

definition captureRounds ::
  "(Video option \<times> DetectedFace list \<times> Canvas \<times> unit ApiResponse Awaited) list
    \<Rightarrow> EnrollEvent list" where
  "captureRounds xs =
    concat (map (\<lambda>(vref, faces, cv, outcome). [ClickCapture vref True faces cv, Answer 0 outcome]) xs)"

text \<open>A round that goes well: the button is enabled, a frame is captured and the
  enrollment service answers with success.\<close>

definition roundSucceeds ::
  "Video option \<times> DetectedFace list \<times> Canvas \<times> unit ApiResponse Awaited \<Rightarrow> bool" where
  "roundSucceeds x =
    (case x of (vref, faces, cv, outcome) \<Rightarrow>
       faces \<noteq> [] \<and> gotImage (captureImage vref True cv) \<and> addFaceVariation outcome)"

section \<open>Concrete situations\<close>

text \<open>Values on which the results below are exercised.\<close>

definition readyVideo :: Video where
  "readyVideo =
    \<lparr>paused = False, ended = False, readyState = 4, videoWidth = 1280, videoHeight = 720\<rparr>"

definition blankVideo :: Video where
  "blankVideo =
    \<lparr>paused = False, ended = False, readyState = 0, videoWidth = 0, videoHeight = 0\<rparr>"

definition okCanvas :: Canvas where
  "okCanvas = \<lparr>hasContext2d = True, drawThrows = False, toDataURL = (\<lambda>w h. ''data:image/jpeg'')\<rparr>"

definition okResponse :: "unit ApiResponse" where
  "okResponse = \<lparr>success = True, message = ''ok'', result = None\<rparr>"

definition failResponse :: "unit ApiResponse" where
  "failResponse = \<lparr>success = False, message = ''no face'', result = None\<rparr>"

definition freshEnroll :: EnrollState where
  "freshEnroll =
    \<lparr>isCapturingVariations = False, currentVariationIndex = 0,
     capturedVariations = [], personNameForVariations = []\<rparr>"

text \<open>The sequencer as mounted, with nothing pending.\<close>

definition freshSys :: EnrollSys where
  "freshSys = \<lparr>session = freshEnroll, awaiting = []\<rparr>"

text \<open>A click on the enabled capture button in front of a ready camera.\<close>

definition goodClick :: EnrollEvent where
  "goodClick = ClickCapture (Some readyVideo) True [DetectedFace 0 None] okCanvas"

definition goodRound ::
  "Video option \<times> DetectedFace list \<times> Canvas \<times> unit ApiResponse Awaited" where
  "goodRound = (Some readyVideo, [DetectedFace 0 None], okCanvas, Fulfilled okResponse)"

text \<open>
  A session is started and the capture button is clicked twice before the enrollment
  service has answered the first click; then both requests are answered with success.
\<close>

definition doubleClick :: "EnrollEvent list" where
  "doubleClick =
    [StartCapture ''An'', goodClick, goodClick,
     Answer 0 (Fulfilled okResponse), Answer 0 (Fulfilled okResponse)]"

text \<open>The same, followed by five successful rounds made one after the other: seven
  successful captures in all.\<close>

definition sevenWithDoubleClick :: "EnrollEvent list" where
  "sevenWithDoubleClick = doubleClick @ captureRounds (replicate 5 goodRound)"

definition unknownResponse :: "FaceRecognitionResult ApiResponse" where
  "unknownResponse =
    \<lparr>success = True, message = ''ok'',
     result = Some \<lparr>recognized = False, name = None, best_variation = None\<rparr>\<rparr>"

definition recognizedResponse :: "FaceRecognitionResult ApiResponse" where
  "recognizedResponse =
    \<lparr>success = True, message = ''ok'',
     result = Some \<lparr>recognized = True, name = Some ''An'', best_variation = Some ''default''\<rparr>\<rparr>"

text \<open>
  The page as mounted with the camera started: streaming, the models loaded, one face
  detected, the recognition loop not yet started.
\<close>

definition mountedPage :: PageState where
  "mountedPage =
    \<lparr>videoRef = Some readyVideo, canvasRef = True, isStreaming = True, modelsLoaded = True,
     cameraError = [], detectedFaces = [DetectedFace 0 None], recognitionStatus = Idle,
     doorStatus = Locked, autoRecognition = initialAutoRecognition,
     detectionIntervalRef = True, autoRecognitionIntervalRef = False\<rparr>"

definition mountedSys :: Sys where
  "mountedSys =
    \<lparr>page = mountedPage, tickClosure = mountedPage, inFlight = [], timers = [], detecting = 0,
     requestsIssued = 0\<rparr>"

text \<open>The same page after a click on the start button: the loop has just started.\<close>

definition readyPage :: PageState where
  "readyPage =
    mountedPage\<lparr>autoRecognition := initialAutoRecognition\<lparr>isActive := True\<rparr>,
      autoRecognitionIntervalRef := True\<rparr>"

text \<open>\<open>readyPage\<close> with another status, attempt count and time of the last attempt.\<close>

definition pageAt :: "RecognitionStatus \<Rightarrow> int \<Rightarrow> int \<Rightarrow> PageState" where
  "pageAt rs n t =
    readyPage\<lparr>recognitionStatus := rs,
      autoRecognition := (autoRecognition readyPage)\<lparr>attemptCount := n, lastAttempt := t\<rparr>\<rparr>"

text \<open>The page after a tick has armed the cooldown until \<open>c\<close>.\<close>

definition cooledPage :: "RecognitionStatus \<Rightarrow> int \<Rightarrow> int \<Rightarrow> PageState" where
  "cooledPage rs t c =
    (pageAt rs 0 t)\<lparr>autoRecognition :=
      (autoRecognition (pageAt rs 0 t))\<lparr>cooldownUntil := Some c\<rparr>\<rparr>"

text \<open>The loop around the page \<open>p\<close>, its interval installed by the render \<open>c\<close>, with
  nothing pending and \<open>k\<close> requests issued so far.\<close>

definition loopAt :: "PageState \<Rightarrow> PageState \<Rightarrow> nat \<Rightarrow> Sys" where
  "loopAt p c k =
    \<lparr>page = p, tickClosure = c, inFlight = [], timers = [], detecting = 0, requestsIssued = k\<rparr>"

definition readySys :: Sys where
  "readySys = loopAt readyPage readyPage 0"

text \<open>The request issued by a tick at time \<open>now\<close> that read the attempt count \<open>n\<close>.\<close>

definition attemptAt :: "int \<Rightarrow> int \<Rightarrow> Attempt" where
  "attemptAt now n =
    \<lparr>reqNow = now, reqImage = ''data:image/jpeg'', seenAttemptCount = n, seenMaxAttempts = 10\<rparr>"

text \<open>The loop after its first tick, at time 5000: scanning, one request in flight.\<close>

definition scanningSys :: Sys where
  "scanningSys = (loopAt (pageAt Scanning 0 0) readyPage 1)\<lparr>inFlight := [attemptAt 5000 0]\<rparr>"

text \<open>
  A run with ticks every 1000 ms: the request of the tick at 10000 is answered at 11600
  with \<open>recognized = false\<close>, which schedules the return to idle for 12600; the tick at
  12000 starts a second request; the timeout fires at 12600; the tick at 13000 follows.
\<close>

definition overlapTrace :: "Event list" where
  "overlapTrace =
    [Tick 10000 okCanvas, Settle 0 11600 (Fulfilled unknownResponse), Tick 12000 okCanvas,
     Fire 0, Tick 13000 okCanvas]"

text \<open>
  One attempt that ends unknown: the tick at time \<open>t\<close>, the answer 500 ms later, and the
  return to idle.
\<close>

definition unknownRound :: "int \<Rightarrow> Event list" where
  "unknownRound t = [Tick t okCanvas, Settle 0 (t + 500) (Fulfilled unknownResponse), Fire 0]"

text \<open>
  Ten attempts without a recognition, 2000 ms apart, after which the camera is stopped
  and started again while the loop stays active.
\<close>

definition exhaustTrace :: "Event list" where
  "exhaustTrace =
    concat (map unknownRound
      [10000, 12000, 14000, 16000, 18000, 20000, 22000, 24000, 26000, 28000])
    @ [StopStream, StreamStarted]"

text \<open>The loop after \<open>exhaustTrace\<close>: ten attempts counted, the interval installed anew.\<close>

definition exhaustedSys :: Sys where
  "exhaustedSys = loopAt (pageAt Idle 10 28000) (pageAt Idle 10 28000) 10"

section \<open>Results on frame capture\<close>

lemma captureImage_Some_iff:
  "captureImage vref streaming cv = Some img \<longleftrightarrow>
    (\<exists>v. vref = Some v \<and> streaming \<and> \<not> paused v \<and> \<not> ended v \<and> 2 \<le> readyState v
       \<and> videoWidth v \<noteq> 0 \<and> videoHeight v \<noteq> 0 \<and> hasContext2d cv \<and> \<not> drawThrows cv
       \<and> img = toDataURL cv (videoWidth v) (videoHeight v))"
  by (cases vref) (auto simp: captureImage_def)

lemma captureImage_ready: "captureImage (Some readyVideo) True okCanvas = Some ''data:image/jpeg''"
  by (simp add: captureImage_def readyVideo_def okCanvas_def)

text \<open>
  C10, as stated, fails on the capture function of the \<open>useCamera\<close> hook: while streaming
  it returns an image for a video element that has loaded nothing (\<open>readyState = 0\<close>) and
  has width and height zero.
\<close>

theorem captureImage_hook_ignores_readiness:
  "captureImage_hook (Some blankVideo) True okCanvas = Inr (Some ''data:image/jpeg'')
   \<and> readyState blankVideo = 0 \<and> videoWidth blankVideo = 0 \<and> videoHeight blankVideo = 0"
  by (simp add: captureImage_hook_def blankVideo_def okCanvas_def)

text \<open>
  C10 (amended). \<open>captureImage\<close> of the camera context, which the recognition loop and the
  enrollment sequencer call, returns an image only if streaming is true, the video element
  is present with \<open>readyState \<ge> 2\<close> (so its metadata is loaded), neither paused nor ended,
  and its width and height are non-zero; in every other case, a canvas exception included,
  it returns \<open>null\<close>. \<open>captureImage\<close> of the \<open>useCamera\<close> hook returns an image exactly when
  the video element is present, streaming is true and a 2D context is available and does
  not throw, whatever the ready state, with 640 and 480 in place of a zero width and
  height; a canvas exception leaves it.
\<close>

theorem captureImage_only_when_ready:
  "(captureImage vref streaming cv = Some img \<longrightarrow>
      streaming \<and> (\<exists>v. vref = Some v \<and> 2 \<le> readyState v \<and> \<not> paused v \<and> \<not> ended v
                     \<and> videoWidth v \<noteq> 0 \<and> videoHeight v \<noteq> 0))
   \<and> (\<not> (streaming \<and> (\<exists>v. vref = Some v \<and> 2 \<le> readyState v
                           \<and> videoWidth v \<noteq> 0 \<and> videoHeight v \<noteq> 0))
        \<longrightarrow> captureImage vref streaming cv = None)
   \<and> (drawThrows cv \<longrightarrow> captureImage vref streaming cv = None)
   \<and> (captureImage_hook vref streaming cv = Inr (Some img) \<longleftrightarrow>
        (\<exists>v. vref = Some v \<and> streaming \<and> hasContext2d cv \<and> \<not> drawThrows cv
           \<and> img = toDataURL cv (if videoWidth v = 0 then 640 else videoWidth v)
                                (if videoHeight v = 0 then 480 else videoHeight v)))
   \<and> (captureImage_hook vref streaming cv = Inl CanvasException \<longleftrightarrow>
        vref \<noteq> None \<and> streaming \<and> hasContext2d cv \<and> drawThrows cv)"
  by (cases vref) (auto simp: captureImage_def captureImage_hook_def)

theorem captureImage_only_when_ready_witness:
  "captureImage (Some readyVideo) True okCanvas = Some ''data:image/jpeg''
   \<and> 2 \<le> readyState readyVideo \<and> videoWidth readyVideo \<noteq> 0 \<and> videoHeight readyVideo \<noteq> 0
   \<and> captureImage (Some blankVideo) True okCanvas = None
   \<and> captureImage (Some readyVideo) False okCanvas = None"
  using captureImage_only_when_ready [of "Some readyVideo" True okCanvas "''data:image/jpeg''"]
    captureImage_only_when_ready [of "Some blankVideo" True okCanvas "''data:image/jpeg''"]
    captureImage_only_when_ready [of "Some readyVideo" False okCanvas "''data:image/jpeg''"]
    captureImage_ready
  by (simp add: readyVideo_def blankVideo_def)

section \<open>Results on the enrollment sequencer\<close>

lemma length_VARIATION_TYPES: "length VARIATION_TYPES = 7"
  by (simp add: VARIATION_TYPES_def)

text \<open>The handler up to its \<open>await\<close>: the request is made for the catalog entry at the
  index of the render the handler belongs to.\<close>

lemma captureNextVariation_request:
  assumes "currentVariationIndex seen < length VARIATION_TYPES"
    and "gotImage (captureImage vref streaming cv)"
  shows "captureNextVariation seen st vref streaming cv =
    (st, Some (AddVariation (VARIATION_TYPES ! currentVariationIndex seen)))"
  using assms by (auto simp: captureNextVariation_def gotImage_def split: option.splits)

lemma captureNextVariation_no_frame:
  assumes "currentVariationIndex seen < length VARIATION_TYPES"
    and "\<not> gotImage (captureImage vref streaming cv)"
  shows "captureNextVariation seen st vref streaming cv = (st, None)"
  using assms by (auto simp: captureNextVariation_def gotImage_def split: option.splits)

lemma captureNextVariation_past_catalog:
  assumes "length VARIATION_TYPES \<le> currentVariationIndex seen"
  shows "captureNextVariation seen st vref streaming cv =
    (st\<lparr>isCapturingVariations := False\<rparr>, Some FetchFaces)"
  using assms by (simp add: captureNextVariation_def finishMultiVariationCapture_def)

lemma enrollRun_append: "enrollRun (xs @ ys) s = enrollRun ys (enrollRun xs s)"
  by (induction xs arbitrary: s) simp_all

lemma captureRounds_Cons: "captureRounds (x # xs) = captureRounds [x] @ captureRounds xs"
  by (simp add: captureRounds_def)

text \<open>
  One round with nothing else pending, at an index inside the catalog: if it goes well,
  the current entry's value is appended and the index advances by one; if not (button
  disabled, no frame, or no success from the service), nothing changes.
\<close>

lemma captureRound_success:
  assumes "awaiting s = []" and "isCapturingVariations (session s)"
    and "currentVariationIndex (session s) < length VARIATION_TYPES"
    and "roundSucceeds (vref, faces, cv, outcome)"
  shows "enrollRun (captureRounds [(vref, faces, cv, outcome)]) s =
    s\<lparr>session := (session s)
        \<lparr>capturedVariations :=
           capturedVariations (session s)
             @ [val (VARIATION_TYPES ! currentVariationIndex (session s))],
         currentVariationIndex := currentVariationIndex (session s) + 1\<rparr>\<rparr>"
proof -
  from assms(4) have ok: "faces \<noteq> []" "gotImage (captureImage vref True cv)"
    "addFaceVariation outcome"
    by (simp_all add: roundSucceeds_def)
  have req: "captureNextVariation (session s) (session s) vref True cv =
      (session s, Some (AddVariation (VARIATION_TYPES ! currentVariationIndex (session s))))"
    by (rule captureNextVariation_request [OF assms(3) ok(2)])
  show ?thesis
    using assms(1,2) ok(1,3)
    by (simp add: captureRounds_def req captureNextVariation_resume_def dropNth_def)
qed

lemma captureRound_failure:
  assumes "awaiting s = []" and "isCapturingVariations (session s)"
    and "currentVariationIndex (session s) < length VARIATION_TYPES"
    and "\<not> roundSucceeds (vref, faces, cv, outcome)"
  shows "enrollRun (captureRounds [(vref, faces, cv, outcome)]) s = s"
proof (cases "faces \<noteq> [] \<and> gotImage (captureImage vref True cv)")
  case True
  then have req: "captureNextVariation (session s) (session s) vref True cv =
      (session s, Some (AddVariation (VARIATION_TYPES ! currentVariationIndex (session s))))"
    by (simp add: captureNextVariation_request [OF assms(3)])
  from True assms(4) have "\<not> addFaceVariation outcome"
    by (simp add: roundSucceeds_def)
  then show ?thesis
    using assms(1,2) True
    by (simp add: captureRounds_def req captureNextVariation_resume_def dropNth_def)
next
  case False
  then have "faces = [] \<or> captureNextVariation (session s) (session s) vref True cv = (session s, None)"
    using captureNextVariation_no_frame [OF assms(3)] by blast
  then show ?thesis
    using assms(1) by (auto simp: captureRounds_def)
qed

text \<open>
  A click made while an earlier request is still pending reads the same index as the
  earlier click: when both requests are answered with success, the same catalog entry
  is appended twice and the index has advanced by two.
\<close>

lemma overlapping_clicks:
  assumes "awaiting s = []" and "isCapturingVariations (session s)"
    and "currentVariationIndex (session s) < length VARIATION_TYPES"
    and "faces \<noteq> []" and "gotImage (captureImage vref True cv)"
    and "addFaceVariation outcome" and "addFaceVariation outcome'"
  shows "enrollRun [ClickCapture vref True faces cv, ClickCapture vref True faces cv,
        Answer 0 outcome, Answer 0 outcome'] s =
    s\<lparr>session := (session s)
        \<lparr>capturedVariations :=
           capturedVariations (session s)
             @ [val (VARIATION_TYPES ! currentVariationIndex (session s)),
                val (VARIATION_TYPES ! currentVariationIndex (session s))],
         currentVariationIndex := currentVariationIndex (session s) + 2\<rparr>\<rparr>"
proof -
  have req: "captureNextVariation (session s) (session s) vref True cv =
      (session s, Some (AddVariation (VARIATION_TYPES ! currentVariationIndex (session s))))"
    by (rule captureNextVariation_request [OF assms(3,5)])
  show ?thesis
    using assms(1,2,4,6,7)
    by (simp add: req captureNextVariation_resume_def dropNth_def)
qed

text \<open>Successful rounds made one after the other, staying inside the catalog, append
  the catalog entries from the current index on, in order.\<close>

lemma captureRounds_all_succeed:
  "list_all roundSucceeds xs \<Longrightarrow> awaiting s = [] \<Longrightarrow> isCapturingVariations (session s) \<Longrightarrow>
   currentVariationIndex (session s) + length xs \<le> length VARIATION_TYPES \<Longrightarrow>
   enrollRun (captureRounds xs) s =
     s\<lparr>session := (session s)
        \<lparr>capturedVariations :=
           capturedVariations (session s)
             @ map val (take (length xs) (drop (currentVariationIndex (session s)) VARIATION_TYPES)),
         currentVariationIndex := currentVariationIndex (session s) + length xs\<rparr>\<rparr>"
proof (induction xs arbitrary: s)
  case Nil
  then show ?case by (simp add: captureRounds_def)
next
  case (Cons x xs)
  obtain vref faces cv outcome where x: "x = (vref, faces, cv, outcome)"
    by (cases x) auto
  let ?i = "currentVariationIndex (session s)"
  let ?s' = "s\<lparr>session := (session s)
        \<lparr>capturedVariations := capturedVariations (session s) @ [val (VARIATION_TYPES ! ?i)],
         currentVariationIndex := ?i + 1\<rparr>\<rparr>"
  from Cons.prems have lt: "?i < length VARIATION_TYPES" by simp
  from Cons.prems x have ok: "roundSucceeds (vref, faces, cv, outcome)" by simp
  have first: "enrollRun (captureRounds [x]) s = ?s'"
    unfolding x by (rule captureRound_success [OF Cons.prems(2,3) lt ok])
  have rest: "list_all roundSucceeds xs" using Cons.prems by simp
  have idle: "awaiting ?s' = []" "isCapturingVariations (session ?s')"
    using Cons.prems by simp_all
  have bound: "currentVariationIndex (session ?s') + length xs \<le> length VARIATION_TYPES"
    using Cons.prems by simp
  have split: "take (Suc (length xs)) (drop ?i VARIATION_TYPES) =
      VARIATION_TYPES ! ?i # take (length xs) (drop (Suc ?i) VARIATION_TYPES)"
    using lt by (simp add: Cons_nth_drop_Suc [symmetric])
  have "enrollRun (captureRounds (x # xs)) s = enrollRun (captureRounds xs) ?s'"
    by (simp only: captureRounds_Cons [of x xs] enrollRun_append first)
  also have "\<dots> = ?s'\<lparr>session := (session ?s')
        \<lparr>capturedVariations :=
           capturedVariations (session ?s')
             @ map val (take (length xs) (drop (currentVariationIndex (session ?s')) VARIATION_TYPES)),
         currentVariationIndex := currentVariationIndex (session ?s') + length xs\<rparr>\<rparr>"
    by (rule Cons.IH [OF rest idle bound])
  finally show ?case
    by (simp add: split)
qed

text \<open>
  Seven successful rounds made one after the other from the start of a session, each
  click after the answer to the one before: the list is the catalog in order and the
  index is the catalog's length.
\<close>

lemma seven_rounds_in_sequence:
  assumes "length xs = 7" and "list_all roundSucceeds xs" and "awaiting s = []"
  shows "capturedVariations (session (enrollRun (StartCapture personName # captureRounds xs) s))
      = map val VARIATION_TYPES"
    and "currentVariationIndex (session (enrollRun (StartCapture personName # captureRounds xs) s))
      = length VARIATION_TYPES"
proof -
  let ?s0 = "enrollStep (StartCapture personName) s"
  have i0: "currentVariationIndex (session ?s0) = 0" "capturedVariations (session ?s0) = []"
    "isCapturingVariations (session ?s0)" "awaiting ?s0 = []"
    using assms(3) by (simp_all add: startMultiVariationCapture_def)
  have "enrollRun (captureRounds xs) ?s0 =
     ?s0\<lparr>session := (session ?s0)
        \<lparr>capturedVariations :=
           capturedVariations (session ?s0)
             @ map val (take (length xs) (drop (currentVariationIndex (session ?s0)) VARIATION_TYPES)),
         currentVariationIndex := currentVariationIndex (session ?s0) + length xs\<rparr>\<rparr>"
    using assms(1,2) i0
    by (intro captureRounds_all_succeed) (simp_all add: length_VARIATION_TYPES)
  then have fin: "enrollRun (StartCapture personName # captureRounds xs) s =
     ?s0\<lparr>session := (session ?s0)
        \<lparr>capturedVariations := map val VARIATION_TYPES, currentVariationIndex := 7\<rparr>\<rparr>"
    using assms(1) i0(1,2) by (simp add: length_VARIATION_TYPES del: enrollStep.simps)
  show "capturedVariations (session (enrollRun (StartCapture personName # captureRounds xs) s))
      = map val VARIATION_TYPES"
    by (simp add: fin del: enrollStep.simps enrollRun.simps)
  show "currentVariationIndex (session (enrollRun (StartCapture personName # captureRounds xs) s))
      = length VARIATION_TYPES"
    by (simp add: fin length_VARIATION_TYPES del: enrollStep.simps enrollRun.simps)
qed

text \<open>The handlers that end a session: the session is closed at once, and the list,
  the index and the name are kept until \<open>fetchFaces\<close> has returned.\<close>

lemma finish_in_two_steps:
  assumes "isCapturingVariations (session s)" and "awaiting s = []"
  shows "enrollStep ClickSkip s =
      s\<lparr>session := (session s)\<lparr>isCapturingVariations := False\<rparr>, awaiting := [FetchFaces]\<rparr>"
    and "enrollRun [ClickSkip, Answer 0 outcome] s =
      s\<lparr>session := (session s)
          \<lparr>isCapturingVariations := False, personNameForVariations := [],
           currentVariationIndex := 0, capturedVariations := []\<rparr>\<rparr>"
  using assms
  by (simp_all add: finishMultiVariationCapture_def finishMultiVariationCapture_resume_def
      dropNth_def)

text \<open>
  C9 fails in the code. The capture button stays enabled while a request is pending, so
  it can be clicked again before the enrollment service has answered. Both handlers then
  belong to the same render and read the same \<open>currentVariationIndex\<close>: after a session is
  started and the button clicked twice, two requests for the first catalog entry are
  pending; when both are answered with success, \<open>capturedVariations\<close> is
  \<open>[default, default]\<close> and the index is 2, so the second successful capture step has not
  appended the current catalog entry. With five more successful captures, made one after
  the other, seven successful captures in all have brought the index to the catalog's
  length, and \<open>capturedVariations\<close> is not the catalog: \<open>default\<close> is there twice and
  \<open>with_glasses\<close> is missing.
\<close>

theorem overlapping_captures_repeat_entry:
  "awaiting (enrollRun [StartCapture ''An'', goodClick, goodClick] freshSys)
      = [AddVariation (VARIATION_TYPES ! 0), AddVariation (VARIATION_TYPES ! 0)]
   \<and> capturedVariations (session (enrollRun doubleClick freshSys)) = [''default'', ''default'']
   \<and> currentVariationIndex (session (enrollRun doubleClick freshSys)) = 2
   \<and> awaiting (enrollRun doubleClick freshSys) = []
   \<and> currentVariationIndex (session (enrollRun sevenWithDoubleClick freshSys))
       = length VARIATION_TYPES
   \<and> capturedVariations (session (enrollRun sevenWithDoubleClick freshSys))
       = [''default'', ''default'', ''no_glasses'', ''left_angle'', ''right_angle'',
          ''slight_smile'', ''serious'']
   \<and> capturedVariations (session (enrollRun sevenWithDoubleClick freshSys))
       \<noteq> map val VARIATION_TYPES"
proof -
  let ?s0 = "enrollStep (StartCapture ''An'') freshSys"
  have ok: "gotImage (captureImage (Some readyVideo) True okCanvas)"
    by (simp add: captureImage_ready gotImage_def)
  have yes: "addFaceVariation (Fulfilled okResponse)"
    by (simp add: addFaceVariation_def okResponse_def)
  have i0: "awaiting ?s0 = []" "isCapturingVariations (session ?s0)"
    "currentVariationIndex (session ?s0) = 0" "capturedVariations (session ?s0) = []"
    by (simp_all add: freshSys_def freshEnroll_def startMultiVariationCapture_def)
  have lt: "currentVariationIndex (session ?s0) < length VARIATION_TYPES"
    unfolding i0(3) length_VARIATION_TYPES by simp
  have req: "captureNextVariation (session ?s0) (session ?s0) (Some readyVideo) True okCanvas =
      (session ?s0, Some (AddVariation (VARIATION_TYPES ! 0)))"
    using captureNextVariation_request [OF lt ok] by (simp only: i0)
  have two: "awaiting (enrollRun [StartCapture ''An'', goodClick, goodClick] freshSys)
      = [AddVariation (VARIATION_TYPES ! 0), AddVariation (VARIATION_TYPES ! 0)]"
    using i0(1,2) req by (simp add: goodClick_def del: enrollStep.simps(1))
  let ?s2 = "?s0\<lparr>session := (session ?s0)
        \<lparr>capturedVariations := [''default'', ''default''], currentVariationIndex := 2\<rparr>\<rparr>"
  have v0: "val (VARIATION_TYPES ! 0) = ''default''"
    by (simp add: VARIATION_TYPES_def)
  have "enrollRun [goodClick, goodClick, Answer 0 (Fulfilled okResponse),
        Answer 0 (Fulfilled okResponse)] ?s0 =
      ?s0\<lparr>session := (session ?s0)
        \<lparr>capturedVariations :=
           capturedVariations (session ?s0)
             @ [val (VARIATION_TYPES ! currentVariationIndex (session ?s0)),
                val (VARIATION_TYPES ! currentVariationIndex (session ?s0))],
         currentVariationIndex := currentVariationIndex (session ?s0) + 2\<rparr>\<rparr>"
    unfolding goodClick_def
    by (rule overlapping_clicks [OF i0(1,2) lt _ ok yes yes]) simp
  then have dbl: "enrollRun doubleClick freshSys = ?s2"
    by (simp add: doubleClick_def i0 v0 del: enrollStep.simps)
  have s2: "awaiting ?s2 = []" "isCapturingVariations (session ?s2)"
    "currentVariationIndex (session ?s2) = 2"
    "capturedVariations (session ?s2) = [''default'', ''default'']"
    using i0 by simp_all
  have good: "list_all roundSucceeds (replicate 5 goodRound)"
    using ok yes by (simp add: list_all_iff roundSucceeds_def goodRound_def)
  have "enrollRun (captureRounds (replicate 5 goodRound)) ?s2 =
     ?s2\<lparr>session := (session ?s2)
        \<lparr>capturedVariations :=
           capturedVariations (session ?s2)
             @ map val (take (length (replicate 5 goodRound))
                 (drop (currentVariationIndex (session ?s2)) VARIATION_TYPES)),
         currentVariationIndex :=
           currentVariationIndex (session ?s2) + length (replicate 5 goodRound)\<rparr>\<rparr>"
    by (rule captureRounds_all_succeed [OF good s2(1,2)])
      (simp add: s2(3) length_VARIATION_TYPES)
  moreover have "map val (take 5 (drop 2 VARIATION_TYPES)) =
      [''no_glasses'', ''left_angle'', ''right_angle'', ''slight_smile'', ''serious'']"
    by (simp add: VARIATION_TYPES_def)
  ultimately have seven: "enrollRun sevenWithDoubleClick freshSys =
     ?s2\<lparr>session := (session ?s2)
        \<lparr>capturedVariations :=
           [''default'', ''default'', ''no_glasses'', ''left_angle'', ''right_angle'',
            ''slight_smile'', ''serious''],
         currentVariationIndex := 7\<rparr>\<rparr>"
    by (simp add: sevenWithDoubleClick_def enrollRun_append dbl s2(3,4)
        del: enrollStep.simps)
  have cat: "map val VARIATION_TYPES =
      [''default'', ''with_glasses'', ''no_glasses'', ''left_angle'', ''right_angle'',
       ''slight_smile'', ''serious'']"
    by (simp add: VARIATION_TYPES_def)
  have c1: "capturedVariations (session (enrollRun doubleClick freshSys)) = [''default'', ''default'']"
    "currentVariationIndex (session (enrollRun doubleClick freshSys)) = 2"
    "awaiting (enrollRun doubleClick freshSys) = []"
    by (simp_all add: dbl i0 del: enrollStep.simps)
  have c2: "currentVariationIndex (session (enrollRun sevenWithDoubleClick freshSys))
       = length VARIATION_TYPES"
    "capturedVariations (session (enrollRun sevenWithDoubleClick freshSys))
       = [''default'', ''default'', ''no_glasses'', ''left_angle'', ''right_angle'',
          ''slight_smile'', ''serious'']"
    by (simp_all add: seven length_VARIATION_TYPES del: enrollStep.simps)
  have c3: "capturedVariations (session (enrollRun sevenWithDoubleClick freshSys))
       \<noteq> map val VARIATION_TYPES"
    by (simp add: c2(2) cat)
  show ?thesis
    by (intro conjI) (rule two c1 c2 c3)+
qed

section \<open>Recognition attempt controller: one invocation\<close>

lemma tick_while_scanning:
  "recognitionStatus seen = Scanning \<Longrightarrow> performAutoRecognition seen st now cv = (st, None)"
  by (simp add: performAutoRecognition_def)

lemma tick_issues_request:
  assumes "performAutoRecognition seen st now cv = (st', Some a)"
  shows "st' = st\<lparr>recognitionStatus := Scanning\<rparr>" and "reqNow a = now"
    and "seenAttemptCount a = attemptCount (autoRecognition seen)"
    and "seenMaxAttempts a = maxAttempts (autoRecognition seen)"
    and "recognitionStatus seen \<noteq> Scanning"
    and "isStreaming seen" and "detectedFaces seen \<noteq> []"
    and "\<not> inCooldown (cooldownUntil (autoRecognition seen)) now"
    and "attemptCount (autoRecognition seen) < maxAttempts (autoRecognition seen)"
    and "lastAttempt (autoRecognition seen) + 2000 \<le> now"
  using assms
  by (auto simp: performAutoRecognition_def split: if_splits option.splits)

lemma tick_capture_fails:
  assumes "isStreaming seen" "detectedFaces seen \<noteq> []" "recognitionStatus seen \<noteq> Scanning"
    "\<not> inCooldown (cooldownUntil (autoRecognition seen)) now"
    "attemptCount (autoRecognition seen) < maxAttempts (autoRecognition seen)"
    "lastAttempt (autoRecognition seen) + 2000 \<le> now"
    "\<not> gotImage (captureImage (videoRef st) True cv)"
  shows "performAutoRecognition seen st now cv = (st\<lparr>recognitionStatus := Idle\<rparr>, None)"
  using assms by (simp add: performAutoRecognition_def gotImage_def split: option.splits)

lemma tick_arms_cooldown:
  assumes "isStreaming seen" "detectedFaces seen \<noteq> []" "recognitionStatus seen \<noteq> Scanning"
    "\<not> inCooldown (cooldownUntil (autoRecognition seen)) now"
    "maxAttempts (autoRecognition seen) \<le> attemptCount (autoRecognition seen)"
  shows "performAutoRecognition seen st now cv =
    (st\<lparr>autoRecognition :=
         (autoRecognition st)\<lparr>cooldownUntil := Some (now + 30000), attemptCount := 0\<rparr>\<rparr>,
     None)"
  using assms by (simp add: performAutoRecognition_def setAutoRecognition_def)

lemma tick_in_cooldown:
  assumes "cooldownUntil (autoRecognition seen) = Some c" and "0 \<le> now" and "now < c"
  shows "performAutoRecognition seen st now cv = (st, None)"
  using assms by (simp add: performAutoRecognition_def inCooldown_def)

lemma tick_cooldown_change:
  "cooldownUntil (autoRecognition (fst (performAutoRecognition seen st now cv)))
     = cooldownUntil (autoRecognition st)
   \<or> (maxAttempts (autoRecognition seen) \<le> attemptCount (autoRecognition seen)
       \<and> cooldownUntil (autoRecognition (fst (performAutoRecognition seen st now cv)))
           = Some (now + 30000))"
  by (simp add: performAutoRecognition_def setAutoRecognition_def split: option.splits)

lemma resume_rejected:
  "performAutoRecognition_resume a Rejected st = (st\<lparr>recognitionStatus := Idle\<rparr>, [])"
  by (simp add: performAutoRecognition_resume_def)

lemma resume_lastAttempt:
  "lastAttempt (autoRecognition (fst (performAutoRecognition_resume a (Fulfilled r) st))) = reqNow a"
  by (simp add: performAutoRecognition_resume_def setAutoRecognition_def stopAutoRecognition_def
      Let_def split: option.splits)

lemma resume_recognized:
  assumes "success r" "result r = Some res" "recognized res"
  shows "performAutoRecognition_resume a (Fulfilled r) st =
    (st\<lparr>recognitionStatus := Recognized, doorStatus := Unlocked,
        autoRecognition := (autoRecognition st)\<lparr>isActive := False, attemptCount := 0,
           cooldownUntil := None, lastAttempt := reqNow a\<rparr>,
        autoRecognitionIntervalRef := False\<rparr>,
     [(3000, RemoveNotification), (5000, Relock)])"
  using assms
  by (simp add: performAutoRecognition_resume_def setAutoRecognition_def stopAutoRecognition_def
      Let_def)

lemma resume_unknown:
  assumes "success r" "result r = Some res" "\<not> recognized res"
  shows "performAutoRecognition_resume a (Fulfilled r) st =
    (st\<lparr>recognitionStatus := Unknown,
        autoRecognition :=
          (autoRecognition st)\<lparr>attemptCount := attemptCount (autoRecognition st) + 1,
             lastAttempt := reqNow a\<rparr>\<rparr>,
     (if seenAttemptCount a \<ge> seenMaxAttempts a - 1 then [(3000, RemoveNotification)] else [])
       @ [(1000, BackToIdle)])"
  using assms
  by (simp add: performAutoRecognition_resume_def setAutoRecognition_def Let_def)

text \<open>
  A response that is fulfilled without \<open>success\<close>, or without a result, is counted and
  nothing else: no branch sets the status, which stays as the tick left it (scanning),
  and no timeout is scheduled.
\<close>

lemma resume_not_success:
  assumes "\<not> success r \<or> result r = None"
  shows "performAutoRecognition_resume a (Fulfilled r) st =
    (st\<lparr>autoRecognition :=
          (autoRecognition st)\<lparr>attemptCount := attemptCount (autoRecognition st) + 1,
             lastAttempt := reqNow a\<rparr>\<rparr>, [])"
  using assms
  by (auto simp add: performAutoRecognition_resume_def setAutoRecognition_def Let_def)

lemma resume_fields [simp]:
  "isStreaming (fst (performAutoRecognition_resume a outcome st)) = isStreaming st"
  "modelsLoaded (fst (performAutoRecognition_resume a outcome st)) = modelsLoaded st"
  "detectedFaces (fst (performAutoRecognition_resume a outcome st)) = detectedFaces st"
  by (simp_all add: performAutoRecognition_resume_def setAutoRecognition_def stopAutoRecognition_def
      Let_def split: Awaited.splits option.splits)

lemma resume_keeps_inactive:
  "\<not> isActive (autoRecognition st) \<Longrightarrow>
   \<not> isActive (autoRecognition (fst (performAutoRecognition_resume a outcome st)))"
  by (simp add: performAutoRecognition_resume_def setAutoRecognition_def stopAutoRecognition_def
      Let_def split: Awaited.splits option.splits)

lemma resume_cooldown:
  "cooldownUntil (autoRecognition (fst (performAutoRecognition_resume a outcome st))) = None
   \<or> cooldownUntil (autoRecognition (fst (performAutoRecognition_resume a outcome st)))
       = cooldownUntil (autoRecognition st)"
  by (simp add: performAutoRecognition_resume_def setAutoRecognition_def stopAutoRecognition_def
      Let_def split: Awaited.splits option.splits)

subsection \<open>The concrete situations\<close>

lemma readyPage_pageAt: "readyPage = pageAt Idle 0 0"
  by (simp add: pageAt_def readyPage_def mountedPage_def initialAutoRecognition_def)

lemma pageAt_fields:
  "isStreaming (pageAt rs n t)" "modelsLoaded (pageAt rs n t)"
  "detectedFaces (pageAt rs n t) \<noteq> []" "recognitionStatus (pageAt rs n t) = rs"
  "doorStatus (pageAt rs n t) = Locked"
  "isActive (autoRecognition (pageAt rs n t))"
  "attemptCount (autoRecognition (pageAt rs n t)) = n"
  "maxAttempts (autoRecognition (pageAt rs n t)) = 10"
  "cooldownUntil (autoRecognition (pageAt rs n t)) = None"
  "lastAttempt (autoRecognition (pageAt rs n t)) = t"
  "autoRecognitionIntervalRef (pageAt rs n t)" "detectionIntervalRef (pageAt rs n t)"
  "videoRef (pageAt rs n t) = Some readyVideo" "canvasRef (pageAt rs n t)"
  by (simp_all add: pageAt_def readyPage_def mountedPage_def initialAutoRecognition_def)

lemma cooledPage_fields:
  "isStreaming (cooledPage rs t c)" "modelsLoaded (cooledPage rs t c)"
  "detectedFaces (cooledPage rs t c) \<noteq> []" "recognitionStatus (cooledPage rs t c) = rs"
  "isActive (autoRecognition (cooledPage rs t c))"
  "attemptCount (autoRecognition (cooledPage rs t c)) = 0"
  "maxAttempts (autoRecognition (cooledPage rs t c)) = 10"
  "cooldownUntil (autoRecognition (cooledPage rs t c)) = Some c"
  "lastAttempt (autoRecognition (cooledPage rs t c)) = t"
  "autoRecognitionIntervalRef (cooledPage rs t c)"
  by (simp_all add: cooledPage_def pageAt_fields)

text \<open>A tick whose closure is one \<open>pageAt\<close> page while the current state is another.\<close>

lemma tick_pageAt:
  "rc \<noteq> Scanning \<Longrightarrow> nc < 10 \<Longrightarrow> tc + 2000 \<le> now \<Longrightarrow>
   performAutoRecognition (pageAt rc nc tc) (pageAt rs n t) now okCanvas
     = (pageAt Scanning n t, Some (attemptAt now nc))"
  by (simp add: performAutoRecognition_def pageAt_def readyPage_def mountedPage_def
      initialAutoRecognition_def inCooldown_def captureImage_ready attemptAt_def)

lemma first_tick:
  "performAutoRecognition readyPage readyPage 5000 okCanvas
     = (pageAt Scanning 0 0, Some (attemptAt 5000 0))"
  using tick_pageAt [of Idle 0 0 5000 Idle 0 0] by (simp add: readyPage_pageAt)

lemma arm_pageAt:
  "rc \<noteq> Scanning \<Longrightarrow> 10 \<le> nc \<Longrightarrow>
   performAutoRecognition (pageAt rc nc tc) (pageAt rs n t) now okCanvas
     = (cooledPage rs t (now + 30000), None)"
  by (simp add: tick_arms_cooldown pageAt_fields inCooldown_def) (simp add: cooledPage_def pageAt_def)

lemma arm_cooledPage:
  "rc \<noteq> Scanning \<Longrightarrow> 10 \<le> nc \<Longrightarrow>
   performAutoRecognition (pageAt rc nc tc) (cooledPage rs t c) now okCanvas
     = (cooledPage rs t (now + 30000), None)"
  by (simp add: tick_arms_cooldown pageAt_fields inCooldown_def) (simp add: cooledPage_def pageAt_def)

lemma response_values:
  "success unknownResponse"
  "result unknownResponse = Some \<lparr>recognized = False, name = None, best_variation = None\<rparr>"
  "success recognizedResponse"
  "result recognizedResponse =
     Some \<lparr>recognized = True, name = Some ''An'', best_variation = Some ''default''\<rparr>"
  by (simp_all add: unknownResponse_def recognizedResponse_def)

lemma settle_unknown_pageAt:
  "n < 9 \<Longrightarrow>
   performAutoRecognition_resume (attemptAt now n) (Fulfilled unknownResponse) (pageAt rs m t)
     = (pageAt Unknown (m + 1) now, [(1000, BackToIdle)])"
  by (simp add: resume_unknown [OF response_values(1,2)] pageAt_def attemptAt_def)

lemma fire_backToIdle_pageAt: "fireTimeout BackToIdle (pageAt rs n t) = pageAt Idle n t"
  by (simp add: fireTimeout_def pageAt_def)

section \<open>The event loop\<close>

lemma renderEffects_fields [simp]:
  "autoRecognition (renderEffects old new) = autoRecognition new"
  "isStreaming (renderEffects old new) = isStreaming new"
  "modelsLoaded (renderEffects old new) = modelsLoaded new"
  "recognitionStatus (renderEffects old new) = recognitionStatus new"
  "doorStatus (renderEffects old new) = doorStatus new"
  "detectedFaces (renderEffects old new) = detectedFaces new"
  "videoRef (renderEffects old new) = videoRef new"
  "canvasRef (renderEffects old new) = canvasRef new"
  "cameraError (renderEffects old new) = cameraError new"
  by (simp_all add: renderEffects_def autoRecognitionEffect_def detectionEffect_def Let_def)

lemma renderEffects_refs:
  "autoRecognitionIntervalRef (renderEffects old new) =
     (if autoRecognitionDeps new = autoRecognitionDeps old then autoRecognitionIntervalRef new
      else isActive (autoRecognition new) \<and> isStreaming new \<and> modelsLoaded new)"
  "detectionIntervalRef (renderEffects old new) =
     (if detectionDeps new = detectionDeps old then detectionIntervalRef new
      else isStreaming new \<and> modelsLoaded new)"
  by (simp_all add: renderEffects_def autoRecognitionEffect_def detectionEffect_def Let_def)

lemma renderEffects_same:
  "autoRecognitionDeps new = autoRecognitionDeps old \<Longrightarrow> detectionDeps new = detectionDeps old \<Longrightarrow>
   renderEffects old new = new"
  by (simp add: renderEffects_def)

lemma step_fields [simp]:
  "page (step ev s) = renderEffects (page s) (page (handleEvent ev s))"
  "inFlight (step ev s) = inFlight (handleEvent ev s)"
  "timers (step ev s) = timers (handleEvent ev s)"
  "detecting (step ev s) = detecting (handleEvent ev s)"
  "requestsIssued (step ev s) = requestsIssued (handleEvent ev s)"
  by (simp_all add: step_def)

lemma step_same_deps:
  assumes "autoRecognitionDeps (page (handleEvent ev s)) = autoRecognitionDeps (page s)"
    and "detectionDeps (page (handleEvent ev s)) = detectionDeps (page s)"
  shows "step ev s = handleEvent ev s"
  using assms by (simp add: step_def renderEffects_same intervalInstalled_def)

lemma step_tick_without_interval:
  "\<not> autoRecognitionIntervalRef (page s) \<Longrightarrow> step (Tick now cv) s = s"
  by (simp add: step_same_deps)

lemma step_detectTick_without_interval:
  "\<not> detectionIntervalRef (page s) \<Longrightarrow> step DetectTick s = s"
  by (simp add: step_same_deps)

text \<open>A tick changes none of the dependencies of the two effects.\<close>

lemma tick_keeps_deps:
  "autoRecognitionDeps (fst (performAutoRecognition seen st now cv)) = autoRecognitionDeps st"
  "detectionDeps (fst (performAutoRecognition seen st now cv)) = detectionDeps st"
  by (simp_all add: performAutoRecognition_def autoRecognitionDeps_def detectionDeps_def
      setAutoRecognition_def split: option.splits)

lemma step_tick:
  "autoRecognitionIntervalRef (page s) \<Longrightarrow>
   performAutoRecognition (tickClosure s) (page s) now cv = (p, None) \<Longrightarrow>
   step (Tick now cv) s = s\<lparr>page := p\<rparr>"
  "autoRecognitionIntervalRef (page s) \<Longrightarrow>
   performAutoRecognition (tickClosure s) (page s) now cv = (p, Some a) \<Longrightarrow>
   step (Tick now cv) s =
     s\<lparr>page := p, inFlight := inFlight s @ [a], requestsIssued := requestsIssued s + 1\<rparr>"
  using tick_keeps_deps [of "tickClosure s" "page s" now cv]
  by (simp_all add: step_same_deps)

subsection \<open>The concrete situations in the loop\<close>

lemma deps_pageAt:
  "autoRecognitionDeps (pageAt rs n t) = (True, True, True)"
  "detectionDeps (pageAt rs n t) = (True, True)"
  by (simp_all add: autoRecognitionDeps_def detectionDeps_def pageAt_fields)

lemma loopAt_fields [simp]:
  "page (loopAt p c k) = p" "tickClosure (loopAt p c k) = c" "inFlight (loopAt p c k) = []"
  "timers (loopAt p c k) = []" "detecting (loopAt p c k) = 0" "requestsIssued (loopAt p c k) = k"
  by (simp_all add: loopAt_def)

text \<open>A click on the start button of the mounted page gives the ready loop.\<close>

lemma readySys_reached: "run [ClickStart] mountedSys = readySys"
  by (simp add: step_def mountedSys_def readySys_def loopAt_def readyPage_def mountedPage_def
      startAutoRecognition_def setAutoRecognition_def initialAutoRecognition_def
      renderEffects_def intervalInstalled_def autoRecognitionDeps_def detectionDeps_def
      autoRecognitionEffect_def)

lemma step_tick_pageAt:
  assumes "rc \<noteq> Scanning" and "nc < 10" and "tc + 2000 \<le> now"
    and "page s = pageAt rs n t" and "tickClosure s = pageAt rc nc tc"
  shows "step (Tick now okCanvas) s =
    s\<lparr>page := pageAt Scanning n t, inFlight := inFlight s @ [attemptAt now nc],
      requestsIssued := requestsIssued s + 1\<rparr>"
  using assms by (intro step_tick) (simp_all add: pageAt_fields tick_pageAt)

lemma step_settle_unknown_pageAt:
  assumes "inFlight s = [attemptAt now n]" and "n < 9" and "page s = pageAt rs m t"
  shows "step (Settle 0 u (Fulfilled unknownResponse)) s =
    s\<lparr>page := pageAt Unknown (m + 1) now, inFlight := [], timers := timers s @ [(u + 1000, BackToIdle)]\<rparr>"
  using assms
  by (simp add: step_same_deps settle_unknown_pageAt deps_pageAt dropNth_def)

lemma step_fire_backToIdle_pageAt:
  assumes "timers s = [(u, BackToIdle)]" and "page s = pageAt rs n t"
  shows "step (Fire 0) s = s\<lparr>page := pageAt Idle n t, timers := []\<rparr>"
  using assms
  by (simp add: step_same_deps fire_backToIdle_pageAt deps_pageAt dropNth_def)

lemma scanningSys_reached: "run [Tick 5000 okCanvas] readySys = scanningSys"
  using step_tick_pageAt [of Idle 0 0 5000 readySys Idle 0 0]
  by (simp add: readySys_def scanningSys_def readyPage_pageAt loopAt_def)

text \<open>
  One attempt that ends unknown, made by a loop whose interval was installed by the
  ready page: whatever the current count and time of the last attempt are, the tick
  issues its request, and the round ends idle with one more attempt counted.
\<close>

lemma unknownRound_run:
  assumes "2000 \<le> t"
  shows "run (unknownRound t) (loopAt (pageAt Idle m u) readyPage k)
    = loopAt (pageAt Idle (m + 1) t) readyPage (k + 1)"
proof -
  let ?s1 = "(loopAt (pageAt Idle m u) readyPage k)
      \<lparr>page := pageAt Scanning m u, inFlight := [attemptAt t 0], requestsIssued := k + 1\<rparr>"
  let ?s2 = "?s1\<lparr>page := pageAt Unknown (m + 1) t, inFlight := [],
      timers := [(t + 500 + 1000, BackToIdle)]\<rparr>"
  have 1: "step (Tick t okCanvas) (loopAt (pageAt Idle m u) readyPage k) = ?s1"
    using step_tick_pageAt [of Idle 0 0 t "loopAt (pageAt Idle m u) readyPage k" Idle m u] assms
    by (simp add: readyPage_pageAt)
  have 2: "step (Settle 0 (t + 500) (Fulfilled unknownResponse)) ?s1 = ?s2"
    using step_settle_unknown_pageAt [of ?s1 t 0 Scanning m u "t + 500"] by simp
  have 3: "step (Fire 0) ?s2 = ?s2\<lparr>page := pageAt Idle (m + 1) t, timers := []\<rparr>"
    using step_fire_backToIdle_pageAt [of ?s2 "t + 500 + 1000" Unknown "m + 1" t] by simp
  have "run (unknownRound t) (loopAt (pageAt Idle m u) readyPage k)
      = ?s2\<lparr>page := pageAt Idle (m + 1) t, timers := []\<rparr>"
    by (simp only: unknownRound_def run.simps 1 2 3)
  also have "\<dots> = loopAt (pageAt Idle (m + 1) t) readyPage (k + 1)"
    by (simp add: loopAt_def)
  finally show ?thesis .
qed

text \<open>
  While the loop is stopped, no event other than a click on the start button issues a
  recognition request or restarts the loop.
\<close>

lemma loopStopped_step:
  assumes "ev \<noteq> ClickStart" and "loopStopped s"
  shows "loopStopped (step ev s) \<and> requestsIssued (step ev s) = requestsIssued s"
proof -
  from assms(2) have q: "\<not> isActive (autoRecognition (page s))"
    "\<not> autoRecognitionIntervalRef (page s)"
    by (simp_all add: loopStopped_def)
  show ?thesis
  proof (cases ev)
    case (Tick now cv)
    then show ?thesis using q by (simp add: loopStopped_def renderEffects_refs)
  next
    case (Settle i t outcome)
    have "\<not> autoRecognitionIntervalRef (fst (performAutoRecognition_resume (inFlight s ! i) outcome (page s)))"
      using q(2)
      by (simp add: performAutoRecognition_resume_def setAutoRecognition_def stopAutoRecognition_def
          Let_def split: Awaited.splits option.splits)
    then show ?thesis
      using Settle q resume_keeps_inactive [OF q(1), of "inFlight s ! i" outcome]
      by (simp add: loopStopped_def renderEffects_refs split: prod.splits) (metis fst_conv)
  next
    case (Fire i)
    then show ?thesis using q
      by (simp add: loopStopped_def renderEffects_refs fireTimeout_def split: Timeout.splits)
  next
    case DetectTick
    then show ?thesis using q by (simp add: loopStopped_def renderEffects_refs)
  next
    case (DetectSettle outcome)
    then show ?thesis using q
      by (simp add: loopStopped_def renderEffects_refs detectFaces_resume_def
          split: Awaited.splits option.splits)
  next
    case ClickStart
    then show ?thesis using assms(1) by simp
  next
    case ClickStop
    then show ?thesis
      by (simp add: loopStopped_def renderEffects_refs stopAutoRecognition_def
          setAutoRecognition_def)
  next
    case StopStream
    then show ?thesis using q by (simp add: loopStopped_def renderEffects_refs stopStream_def)
  next
    case StreamStarted
    then show ?thesis using q by (simp add: loopStopped_def renderEffects_refs)
  next
    case ModelsReady
    then show ?thesis using q by (simp add: loopStopped_def renderEffects_refs)
  qed
qed

lemma loopStopped_run:
  "ClickStart \<notin> set evs \<Longrightarrow> loopStopped s \<Longrightarrow>
   loopStopped (run evs s) \<and> requestsIssued (run evs s) = requestsIssued s"
proof (induction evs arbitrary: s)
  case Nil
  then show ?case by simp
next
  case (Cons ev evs)
  then have "ev \<noteq> ClickStart" "ClickStart \<notin> set evs" by auto
  with Cons.prems loopStopped_step [of ev s]
  have "loopStopped (step ev s)" "requestsIssued (step ev s) = requestsIssued s" by simp_all
  with Cons.IH [of "step ev s"] \<open>ClickStart \<notin> set evs\<close> show ?case by simp
qed

section \<open>Attempt accounting\<close>

text \<open>
  C1, as stated, fails: the first tick of the loop, at time 5000, enters scanning and
  issues its request, and leaves \<open>attemptCount\<close> at 0 and \<open>lastAttempt\<close> at 0.
\<close>

theorem accounting_waits_for_response:
  "performAutoRecognition readyPage readyPage 5000 okCanvas
      = (pageAt Scanning 0 0, Some (attemptAt 5000 0))
   \<and> requestsIssued (run [Tick 5000 okCanvas] readySys) = 1
   \<and> recognitionStatus (page (run [Tick 5000 okCanvas] readySys)) = Scanning
   \<and> attemptCount (autoRecognition (page (run [Tick 5000 okCanvas] readySys))) = 0
   \<and> lastAttempt (autoRecognition (page (run [Tick 5000 okCanvas] readySys))) = 0"
  by (simp add: first_tick scanningSys_reached [simplified] scanningSys_def pageAt_fields
      del: step_fields)

text \<open>
  C1 (amended). A tick that enters scanning and issues a request changes neither
  \<open>attemptCount\<close> nor \<open>lastAttempt\<close>. They are written when the request is answered:
  \<open>lastAttempt\<close> becomes the time read at the start of that tick (request time, not
  response time), and \<open>attemptCount\<close> is incremented by one (and then reset to 0 by
  \<open>stopAutoRecognition\<close> when the answer is a recognition); a rejected request changes
  neither, so a request that is never answered is never counted. A tick that reads the
  state so left (status scanning) does nothing, whatever the time: what such a tick is
  gated by is the status it reads, not \<open>lastAttempt\<close>.
\<close>

theorem attempt_accounting_at_response:
  assumes "performAutoRecognition seen st now cv = (st', Some a)"
  shows "autoRecognition st' = autoRecognition st
    \<and> recognitionStatus st' = Scanning
    \<and> (\<forall>t c. performAutoRecognition st' st' t c = (st', None))
    \<and> (\<forall>r p. lastAttempt (autoRecognition (fst (performAutoRecognition_resume a (Fulfilled r) p)))
          = now)
    \<and> (\<forall>r p. \<not> (success r \<and> (\<exists>res. result r = Some res \<and> recognized res)) \<longrightarrow>
          attemptCount (autoRecognition (fst (performAutoRecognition_resume a (Fulfilled r) p)))
            = attemptCount (autoRecognition p) + 1)
    \<and> (\<forall>r p. success r \<and> (\<exists>res. result r = Some res \<and> recognized res) \<longrightarrow>
          attemptCount (autoRecognition (fst (performAutoRecognition_resume a (Fulfilled r) p))) = 0)
    \<and> (\<forall>p. autoRecognition (fst (performAutoRecognition_resume a Rejected p)) = autoRecognition p)"
proof -
  have st': "st' = st\<lparr>recognitionStatus := Scanning\<rparr>" and a: "reqNow a = now"
    using tick_issues_request [OF assms] by simp_all
  have 1: "autoRecognition st' = autoRecognition st" "recognitionStatus st' = Scanning"
    by (simp_all add: st')
  have 2: "\<forall>t c. performAutoRecognition st' st' t c = (st', None)"
    using 1 by (simp add: tick_while_scanning)
  have 3: "\<forall>r p. lastAttempt (autoRecognition (fst (performAutoRecognition_resume a (Fulfilled r) p)))
      = now"
    by (simp add: resume_lastAttempt a)
  have 4: "\<forall>r p. \<not> (success r \<and> (\<exists>res. result r = Some res \<and> recognized res)) \<longrightarrow>
          attemptCount (autoRecognition (fst (performAutoRecognition_resume a (Fulfilled r) p)))
            = attemptCount (autoRecognition p) + 1"
    by (auto simp: performAutoRecognition_resume_def setAutoRecognition_def Let_def
        split: option.splits)
  have 5: "\<forall>r p. success r \<and> (\<exists>res. result r = Some res \<and> recognized res) \<longrightarrow>
          attemptCount (autoRecognition (fst (performAutoRecognition_resume a (Fulfilled r) p))) = 0"
    by (auto simp: resume_recognized)
  have 6: "\<forall>p. autoRecognition (fst (performAutoRecognition_resume a Rejected p)) = autoRecognition p"
    by (simp add: resume_rejected)
  show ?thesis using 1 2 3 4 5 6 by blast
qed

theorem attempt_accounting_at_response_witness:
  "performAutoRecognition readyPage readyPage 5000 okCanvas
      = (pageAt Scanning 0 0, Some (attemptAt 5000 0))
   \<and> autoRecognition (pageAt Scanning 0 0) = autoRecognition readyPage
   \<and> lastAttempt (autoRecognition (fst (performAutoRecognition_resume (attemptAt 5000 0)
         (Fulfilled unknownResponse) (pageAt Scanning 0 0)))) = 5000
   \<and> attemptCount (autoRecognition (fst (performAutoRecognition_resume (attemptAt 5000 0)
         (Fulfilled unknownResponse) (pageAt Scanning 0 0)))) = 1
   \<and> attemptCount (autoRecognition (fst (performAutoRecognition_resume (attemptAt 5000 0)
         (Fulfilled recognizedResponse) (pageAt Scanning 0 0)))) = 0"
proof -
  have u: "\<not> (success unknownResponse \<and> (\<exists>res. result unknownResponse = Some res \<and> recognized res))"
    "success recognizedResponse \<and> (\<exists>res. result recognizedResponse = Some res \<and> recognized res)"
    by (simp_all add: unknownResponse_def recognizedResponse_def)
  have c: "attemptCount (autoRecognition readyPage) = 0"
    by (simp add: readyPage_def initialAutoRecognition_def)
  show ?thesis
    using attempt_accounting_at_response [OF first_tick] u first_tick c
    by (simp add: pageAt_fields)
qed

section \<open>Single flight\<close>

text \<open>
  C2: the code at the run \<open>overlapTrace\<close>, and at two ticks in a row. The callback of
  the interval reads the state of the render that installed it, where the status is
  idle and \<open>lastAttempt\<close> is 0: the scanning guard and the spacing check let every tick
  pass, so the second of two ticks 1000 ms apart issues a second request while the first
  is in flight. In \<open>overlapTrace\<close> the same happens whichever state the ticks read: read
  from the current state, the tick at 12000 finds the status unknown, which the guard
  lets pass, the timeout of the first answer then sets the status to idle while the
  second request is in flight, and the tick at 13000 issues a third one.
\<close>

theorem two_attempts_outstanding:
  "run overlapTrace readySys =
     (loopAt (pageAt Scanning 1 10000) readyPage 3)
       \<lparr>inFlight := [attemptAt 12000 0, attemptAt 13000 0]\<rparr>
   \<and> length (inFlight (run overlapTrace readySys)) = 2
   \<and> run [Tick 10000 okCanvas, Tick 11000 okCanvas] readySys =
     (loopAt (pageAt Scanning 0 0) readyPage 2)
       \<lparr>inFlight := [attemptAt 10000 0, attemptAt 11000 0]\<rparr>
   \<and> performAutoRecognition (pageAt Unknown 1 10000) (pageAt Unknown 1 10000) 12000 okCanvas
       = (pageAt Scanning 1 10000, Some (attemptAt 12000 1))
   \<and> fireTimeout BackToIdle (pageAt Scanning 1 10000) = pageAt Idle 1 10000
   \<and> performAutoRecognition (pageAt Idle 1 10000) (pageAt Idle 1 10000) 13000 okCanvas
       = (pageAt Scanning 1 10000, Some (attemptAt 13000 1))"
proof -
  let ?s1 = "(loopAt (pageAt Scanning 0 0) readyPage 1)\<lparr>inFlight := [attemptAt 10000 0]\<rparr>"
  let ?s2 = "(loopAt (pageAt Unknown 1 10000) readyPage 1)\<lparr>timers := [(12600, BackToIdle)]\<rparr>"
  let ?s3 = "(loopAt (pageAt Scanning 1 10000) readyPage 2)
      \<lparr>inFlight := [attemptAt 12000 0], timers := [(12600, BackToIdle)]\<rparr>"
  let ?s4 = "(loopAt (pageAt Idle 1 10000) readyPage 2)\<lparr>inFlight := [attemptAt 12000 0]\<rparr>"
  let ?s5 = "(loopAt (pageAt Scanning 1 10000) readyPage 3)
      \<lparr>inFlight := [attemptAt 12000 0, attemptAt 13000 0]\<rparr>"
  have 1: "step (Tick 10000 okCanvas) readySys = ?s1"
    using step_tick_pageAt [of Idle 0 0 10000 readySys Idle 0 0]
    by (simp add: readySys_def readyPage_pageAt loopAt_def)
  have 2: "step (Settle 0 11600 (Fulfilled unknownResponse)) ?s1 = ?s2"
    using step_settle_unknown_pageAt [of ?s1 10000 0 Scanning 0 0 11600]
    by (simp add: loopAt_def)
  have 3: "step (Tick 12000 okCanvas) ?s2 = ?s3"
    using step_tick_pageAt [of Idle 0 0 12000 ?s2 Unknown 1 10000]
    by (simp add: readyPage_pageAt loopAt_def)
  have 4: "step (Fire 0) ?s3 = ?s4"
    using step_fire_backToIdle_pageAt [of ?s3 12600 Scanning 1 10000]
    by (simp add: loopAt_def)
  have 5: "step (Tick 13000 okCanvas) ?s4 = ?s5"
    using step_tick_pageAt [of Idle 0 0 13000 ?s4 Idle 1 10000]
    by (simp add: readyPage_pageAt loopAt_def)
  have overlap: "run overlapTrace readySys = ?s5"
    by (simp only: overlapTrace_def run.simps 1 2 3 4 5)
  have "step (Tick 11000 okCanvas) ?s1 =
      ?s1\<lparr>page := pageAt Scanning 0 0, inFlight := inFlight ?s1 @ [attemptAt 11000 0],
        requestsIssued := requestsIssued ?s1 + 1\<rparr>"
    by (rule step_tick_pageAt [of Idle 0 0 11000 _ Scanning 0 0])
      (simp_all add: readyPage_pageAt)
  also have "\<dots> = (loopAt (pageAt Scanning 0 0) readyPage 2)
        \<lparr>inFlight := [attemptAt 10000 0, attemptAt 11000 0]\<rparr>"
    by (simp add: loopAt_def)
  finally have twice: "step (Tick 11000 okCanvas) ?s1 =
      (loopAt (pageAt Scanning 0 0) readyPage 2)
        \<lparr>inFlight := [attemptAt 10000 0, attemptAt 11000 0]\<rparr>" .
  have two: "run [Tick 10000 okCanvas, Tick 11000 okCanvas] readySys =
      (loopAt (pageAt Scanning 0 0) readyPage 2)
        \<lparr>inFlight := [attemptAt 10000 0, attemptAt 11000 0]\<rparr>"
    by (simp only: run.simps 1 twice)
  have len: "length (inFlight ?s5) = 2"
    by simp
  have fresh: "performAutoRecognition (pageAt Unknown 1 10000) (pageAt Unknown 1 10000) 12000 okCanvas
       = (pageAt Scanning 1 10000, Some (attemptAt 12000 1))"
    "fireTimeout BackToIdle (pageAt Scanning 1 10000) = pageAt Idle 1 10000"
    "performAutoRecognition (pageAt Idle 1 10000) (pageAt Idle 1 10000) 13000 okCanvas
       = (pageAt Scanning 1 10000, Some (attemptAt 13000 1))"
    by (simp_all add: tick_pageAt fire_backToIdle_pageAt)
  have len': "length (inFlight (run overlapTrace readySys)) = 2"
    using len by (simp only: overlap)
  show ?thesis
    by (intro conjI) (rule overlap two fresh len')+
qed

section \<open>Stopping the loop\<close>

text \<open>
  C3, as stated, fails: the loop is stopped while its first request is in flight; the
  answer that arrives afterwards unlocks the door, sets the status and \<open>lastAttempt\<close>,
  and an answer with \<open>recognized = false\<close> counts the attempt.
\<close>

theorem late_response_after_stop_is_applied:
  "doorStatus (page (run [Tick 5000 okCanvas, ClickStop] readySys)) = Locked
   \<and> recognitionStatus (page (run [Tick 5000 okCanvas, ClickStop] readySys)) = Scanning
   \<and> lastAttempt (autoRecognition (page (run [Tick 5000 okCanvas, ClickStop] readySys))) = 0
   \<and> attemptCount (autoRecognition (page (run [Tick 5000 okCanvas, ClickStop] readySys))) = 0
   \<and> inFlight (run [Tick 5000 okCanvas, ClickStop] readySys) = [attemptAt 5000 0]
   \<and> doorStatus (page (run [Tick 5000 okCanvas, ClickStop,
         Settle 0 6000 (Fulfilled recognizedResponse)] readySys)) = Unlocked
   \<and> recognitionStatus (page (run [Tick 5000 okCanvas, ClickStop,
         Settle 0 6000 (Fulfilled recognizedResponse)] readySys)) = Recognized
   \<and> lastAttempt (autoRecognition (page (run [Tick 5000 okCanvas, ClickStop,
         Settle 0 6000 (Fulfilled recognizedResponse)] readySys))) = 5000
   \<and> attemptCount (autoRecognition (page (run [Tick 5000 okCanvas, ClickStop,
         Settle 0 6000 (Fulfilled unknownResponse)] readySys))) = 1"
proof -
  have s1: "step (Tick 5000 okCanvas) readySys = scanningSys"
    using scanningSys_reached by simp
  show ?thesis
    by (simp add: s1 scanningSys_def loopAt_def stopAutoRecognition_def setAutoRecognition_def
        resume_recognized [OF response_values(3,4)] resume_unknown [OF response_values(1,2)])
      (simp add: pageAt_fields attemptAt_def)
qed

text \<open>
  C3 (amended). \<open>stopAutoRecognition()\<close> sets \<open>isActive = false\<close>, \<open>attemptCount = 0\<close> and
  \<open>cooldownUntil = null\<close> and cancels the scheduling timer, so that no tick runs. The
  answer to a request still in flight is not discarded: it is handled as at any other
  time. Any fulfilled answer sets \<open>lastAttempt\<close> to the request's time; one with
  \<open>recognized = true\<close> sets the status to recognized and the door to unlocked (the attempt
  count ends at 0); one with \<open>recognized = false\<close> sets the status to unknown and leaves
  the attempt count at 1; a rejected request sets the status to idle and nothing else.
  Only \<open>isActive\<close> (false), \<open>cooldownUntil\<close> (null) and the cancelled timer are left as the
  stop set them.
\<close>

theorem late_response_after_stop:
  "\<not> isActive (autoRecognition (stopAutoRecognition st))
   \<and> \<not> autoRecognitionIntervalRef (stopAutoRecognition st)
   \<and> attemptCount (autoRecognition (stopAutoRecognition st)) = 0
   \<and> cooldownUntil (autoRecognition (stopAutoRecognition st)) = None
   \<and> (\<forall>s now cv. page s = stopAutoRecognition st \<longrightarrow> handleEvent (Tick now cv) s = s)
   \<and> \<not> isActive (autoRecognition
          (fst (performAutoRecognition_resume a outcome (stopAutoRecognition st))))
   \<and> \<not> autoRecognitionIntervalRef
          (fst (performAutoRecognition_resume a outcome (stopAutoRecognition st)))
   \<and> cooldownUntil (autoRecognition
          (fst (performAutoRecognition_resume a outcome (stopAutoRecognition st)))) = None
   \<and> (\<forall>r. outcome = Fulfilled r \<longrightarrow>
        lastAttempt (autoRecognition
          (fst (performAutoRecognition_resume a outcome (stopAutoRecognition st)))) = reqNow a)
   \<and> (\<forall>r res. outcome = Fulfilled r \<and> success r \<and> result r = Some res \<and> recognized res \<longrightarrow>
        recognitionStatus (fst (performAutoRecognition_resume a outcome (stopAutoRecognition st)))
          = Recognized
        \<and> doorStatus (fst (performAutoRecognition_resume a outcome (stopAutoRecognition st)))
          = Unlocked
        \<and> attemptCount (autoRecognition
            (fst (performAutoRecognition_resume a outcome (stopAutoRecognition st)))) = 0)
   \<and> (\<forall>r res. outcome = Fulfilled r \<and> success r \<and> result r = Some res \<and> \<not> recognized res \<longrightarrow>
        recognitionStatus (fst (performAutoRecognition_resume a outcome (stopAutoRecognition st)))
          = Unknown
        \<and> doorStatus (fst (performAutoRecognition_resume a outcome (stopAutoRecognition st)))
          = doorStatus st
        \<and> attemptCount (autoRecognition
            (fst (performAutoRecognition_resume a outcome (stopAutoRecognition st)))) = 1)
   \<and> (outcome = Rejected \<longrightarrow>
        fst (performAutoRecognition_resume a outcome (stopAutoRecognition st))
          = (stopAutoRecognition st)\<lparr>recognitionStatus := Idle\<rparr>)"
proof -
  let ?st = "stopAutoRecognition st"
  have stop: "\<not> isActive (autoRecognition ?st)" "\<not> autoRecognitionIntervalRef ?st"
    "attemptCount (autoRecognition ?st) = 0" "cooldownUntil (autoRecognition ?st) = None"
    "doorStatus ?st = doorStatus st"
    by (simp_all add: stopAutoRecognition_def setAutoRecognition_def)
  have tick: "\<forall>s now cv. page s = ?st \<longrightarrow> handleEvent (Tick now cv) s = s"
    using stop(2) by simp
  have keep: "\<not> isActive (autoRecognition (fst (performAutoRecognition_resume a outcome ?st)))"
    by (rule resume_keeps_inactive [OF stop(1)])
  have ref: "\<not> autoRecognitionIntervalRef (fst (performAutoRecognition_resume a outcome ?st))"
    using stop(2)
    by (simp add: performAutoRecognition_resume_def setAutoRecognition_def stopAutoRecognition_def
        Let_def split: Awaited.splits option.splits)
  have cool: "cooldownUntil (autoRecognition (fst (performAutoRecognition_resume a outcome ?st)))
      = None"
    using resume_cooldown [of a outcome ?st] stop(4) by auto
  have last: "\<forall>r. outcome = Fulfilled r \<longrightarrow>
        lastAttempt (autoRecognition (fst (performAutoRecognition_resume a outcome ?st))) = reqNow a"
    by (simp add: resume_lastAttempt)
  have rec: "\<forall>r res. outcome = Fulfilled r \<and> success r \<and> result r = Some res \<and> recognized res \<longrightarrow>
        recognitionStatus (fst (performAutoRecognition_resume a outcome ?st)) = Recognized
        \<and> doorStatus (fst (performAutoRecognition_resume a outcome ?st)) = Unlocked
        \<and> attemptCount (autoRecognition (fst (performAutoRecognition_resume a outcome ?st))) = 0"
    by (auto simp: resume_recognized)
  have unk: "\<forall>r res. outcome = Fulfilled r \<and> success r \<and> result r = Some res \<and> \<not> recognized res \<longrightarrow>
        recognitionStatus (fst (performAutoRecognition_resume a outcome ?st)) = Unknown
        \<and> doorStatus (fst (performAutoRecognition_resume a outcome ?st)) = doorStatus st
        \<and> attemptCount (autoRecognition (fst (performAutoRecognition_resume a outcome ?st))) = 1"
    using stop(3,5) by (auto simp: resume_unknown)
  have rej: "outcome = Rejected \<longrightarrow>
        fst (performAutoRecognition_resume a outcome ?st) = ?st\<lparr>recognitionStatus := Idle\<rparr>"
    by (simp add: resume_rejected)
  show ?thesis
    using stop(1-4) tick keep ref cool last rec unk rej by blast
qed

theorem late_response_after_stop_witness:
  "doorStatus (fst (performAutoRecognition_resume (attemptAt 5000 0) (Fulfilled recognizedResponse)
      (stopAutoRecognition (pageAt Scanning 0 0)))) = Unlocked
   \<and> lastAttempt (autoRecognition (fst (performAutoRecognition_resume (attemptAt 5000 0)
      (Fulfilled recognizedResponse) (stopAutoRecognition (pageAt Scanning 0 0))))) = 5000
   \<and> \<not> isActive (autoRecognition (fst (performAutoRecognition_resume (attemptAt 5000 0)
      (Fulfilled recognizedResponse) (stopAutoRecognition (pageAt Scanning 0 0)))))
   \<and> recognitionStatus (fst (performAutoRecognition_resume (attemptAt 5000 0)
      (Fulfilled unknownResponse) (stopAutoRecognition (pageAt Scanning 0 0)))) = Unknown
   \<and> attemptCount (autoRecognition (fst (performAutoRecognition_resume (attemptAt 5000 0)
      (Fulfilled unknownResponse) (stopAutoRecognition (pageAt Scanning 0 0))))) = 1
   \<and> fst (performAutoRecognition_resume (attemptAt 5000 0) Rejected
      (stopAutoRecognition (pageAt Scanning 0 0)))
       = (stopAutoRecognition (pageAt Scanning 0 0))\<lparr>recognitionStatus := Idle\<rparr>
   \<and> handleEvent (Tick 6000 okCanvas) (scanningSys\<lparr>page := stopAutoRecognition (pageAt Scanning 0 0)\<rparr>)
       = scanningSys\<lparr>page := stopAutoRecognition (pageAt Scanning 0 0)\<rparr>"
proof -
  note rec = late_response_after_stop [where st = "pageAt Scanning 0 0" and a = "attemptAt 5000 0"
      and outcome = "Fulfilled recognizedResponse"]
  note unk = late_response_after_stop [where st = "pageAt Scanning 0 0" and a = "attemptAt 5000 0"
      and outcome = "Fulfilled unknownResponse"]
  note rej = late_response_after_stop [where st = "pageAt Scanning 0 0" and a = "attemptAt 5000 0"
      and outcome = Rejected]
  have pg: "page (scanningSys\<lparr>page := stopAutoRecognition (pageAt Scanning 0 0)\<rparr>)
      = stopAutoRecognition (pageAt Scanning 0 0)"
    by simp
  show ?thesis
    using rec unk rej response_values pg
    by (simp add: attemptAt_def del: handleEvent.simps)
qed

section \<open>Stopping the stream\<close>

text \<open>
  C4, as stated, fails: \<open>stopStream\<close> while the controller is scanning leaves it scanning
  and active, also after the next ticks of both timers.
\<close>

theorem stopStream_keeps_loop_state:
  "isActive (autoRecognition (page (run [Tick 5000 okCanvas, StopStream] readySys)))
   \<and> recognitionStatus (page (run [Tick 5000 okCanvas, StopStream] readySys)) = Scanning
   \<and> isActive (autoRecognition
        (page (run [Tick 5000 okCanvas, StopStream, Tick 6000 okCanvas, DetectTick] readySys)))
   \<and> recognitionStatus
        (page (run [Tick 5000 okCanvas, StopStream, Tick 6000 okCanvas, DetectTick] readySys))
       = Scanning"
proof -
  have s1: "step (Tick 5000 okCanvas) readySys = scanningSys"
    using scanningSys_reached by simp
  have off: "\<not> autoRecognitionIntervalRef (page (step StopStream scanningSys))"
    "\<not> detectionIntervalRef (page (step StopStream scanningSys))"
    by (simp_all add: renderEffects_refs scanningSys_def stopStream_def autoRecognitionDeps_def
        detectionDeps_def pageAt_fields)
  have t: "step (Tick 6000 okCanvas) (step StopStream scanningSys) = step StopStream scanningSys"
    by (rule step_tick_without_interval [OF off(1)])
  have d: "step DetectTick (step StopStream scanningSys) = step StopStream scanningSys"
    by (rule step_detectTick_without_interval [OF off(2)])
  show ?thesis
    by (simp add: s1 t d del: step_fields) (simp add: scanningSys_def stopStream_def pageAt_fields)
qed

text \<open>The timer refs stay in agreement with their effects through every event.\<close>

lemma effectsSettled_renderEffects:
  assumes "effectsSettled old"
    and "autoRecognitionIntervalRef p = autoRecognitionIntervalRef old
          \<or> \<not> isActive (autoRecognition p) \<and> \<not> autoRecognitionIntervalRef p"
    and "detectionIntervalRef p = detectionIntervalRef old"
  shows "effectsSettled (renderEffects old p)"
  using assms
  by (auto simp: effectsSettled_def renderEffects_refs autoRecognitionDeps_def detectionDeps_def)

lemma effectsSettled_step:
  assumes "effectsSettled (page s)"
  shows "effectsSettled (page (step ev s))"
proof -
  have unchanged: "effectsSettled (renderEffects (page s) (page s))"
    using assms by (simp add: renderEffects_same)
  show ?thesis
  proof (cases ev)
    case (Tick now cv)
    have "autoRecognitionIntervalRef (fst (performAutoRecognition (tickClosure s) (page s) now cv))
        = autoRecognitionIntervalRef (page s)"
      "detectionIntervalRef (fst (performAutoRecognition (tickClosure s) (page s) now cv))
        = detectionIntervalRef (page s)"
      by (simp_all add: performAutoRecognition_def setAutoRecognition_def split: option.splits)
    then have "effectsSettled (renderEffects (page s)
        (fst (performAutoRecognition (tickClosure s) (page s) now cv)))"
      using assms by (simp add: effectsSettled_renderEffects)
    then show ?thesis using Tick unchanged
      by (auto split: prod.splits option.splits)
  next
    case (Settle i t outcome)
    have "autoRecognitionIntervalRef (fst (performAutoRecognition_resume a outcome (page s)))
          = autoRecognitionIntervalRef (page s)
        \<or> \<not> isActive (autoRecognition (fst (performAutoRecognition_resume a outcome (page s))))
          \<and> \<not> autoRecognitionIntervalRef (fst (performAutoRecognition_resume a outcome (page s)))"
      "detectionIntervalRef (fst (performAutoRecognition_resume a outcome (page s)))
          = detectionIntervalRef (page s)" for a
      by (simp_all add: performAutoRecognition_resume_def setAutoRecognition_def
          stopAutoRecognition_def Let_def split: Awaited.splits option.splits)
    then have "effectsSettled (renderEffects (page s)
        (fst (performAutoRecognition_resume (inFlight s ! i) outcome (page s))))"
      using assms by (simp add: effectsSettled_renderEffects)
    then show ?thesis using Settle unchanged
      by (auto split: prod.splits)
  next
    case (Fire i)
    then show ?thesis using assms unchanged
      by (simp add: effectsSettled_renderEffects fireTimeout_def split: Timeout.splits)
  next
    case DetectTick
    then show ?thesis using unchanged by simp
  next
    case (DetectSettle outcome)
    then show ?thesis using assms unchanged
      by (simp add: effectsSettled_renderEffects detectFaces_resume_def
          split: Awaited.splits option.splits)
  next
    case ClickStart
    then show ?thesis using assms
      by (simp add: effectsSettled_renderEffects startAutoRecognition_def setAutoRecognition_def)
  next
    case ClickStop
    then show ?thesis using assms
      by (simp add: effectsSettled_renderEffects stopAutoRecognition_def setAutoRecognition_def)
  next
    case StopStream
    then show ?thesis using assms by (simp add: effectsSettled_renderEffects stopStream_def)
  next
    case StreamStarted
    then show ?thesis using assms by (simp add: effectsSettled_renderEffects)
  next
    case ModelsReady
    then show ?thesis using assms by (simp add: effectsSettled_renderEffects)
  qed
qed

text \<open>
  While the stream is off, no event other than the start of the stream turns it on,
  issues a recognition request or begins a detection pass.
\<close>

lemma streamOff_step:
  assumes "ev \<noteq> StreamStarted" and "effectsSettled (page s)" and "\<not> isStreaming (page s)"
  shows "\<not> isStreaming (page (step ev s)) \<and> requestsIssued (step ev s) = requestsIssued s
    \<and> detecting (step ev s) \<le> detecting s"
proof -
  from assms(2,3) have refs: "\<not> autoRecognitionIntervalRef (page s)"
    "\<not> detectionIntervalRef (page s)"
    by (simp_all add: effectsSettled_def)
  show ?thesis
  proof (cases ev)
    case (Tick now cv)
    then show ?thesis using refs assms(3) by simp
  next
    case (Settle i t outcome)
    show ?thesis using Settle assms(3)
      by (simp split: prod.splits) (metis fst_conv resume_fields(1))
  next
    case (Fire i)
    then show ?thesis using assms(3)
      by (simp add: fireTimeout_def split: Timeout.splits)
  next
    case DetectTick
    then show ?thesis using refs assms(3) by simp
  next
    case (DetectSettle outcome)
    then show ?thesis using assms(3)
      by (simp add: detectFaces_resume_def split: Awaited.splits option.splits)
  next
    case ClickStart
    then show ?thesis using assms(3)
      by (simp add: startAutoRecognition_def setAutoRecognition_def)
  next
    case ClickStop
    then show ?thesis using assms(3)
      by (simp add: stopAutoRecognition_def setAutoRecognition_def)
  next
    case StopStream
    then show ?thesis by (simp add: stopStream_def)
  next
    case StreamStarted
    then show ?thesis using assms(1) by simp
  next
    case ModelsReady
    then show ?thesis using assms(3) by simp
  qed
qed

lemma streamOff_run:
  "StreamStarted \<notin> set evs \<Longrightarrow> effectsSettled (page s) \<Longrightarrow> \<not> isStreaming (page s) \<Longrightarrow>
   effectsSettled (page (run evs s)) \<and> \<not> isStreaming (page (run evs s))
   \<and> requestsIssued (run evs s) = requestsIssued s \<and> detecting (run evs s) \<le> detecting s"
proof (induction evs arbitrary: s)
  case Nil
  then show ?case by simp
next
  case (Cons ev evs)
  then have ne: "ev \<noteq> StreamStarted" "StreamStarted \<notin> set evs" by auto
  have settled: "effectsSettled (page (step ev s))"
    by (rule effectsSettled_step [OF Cons.prems(2)])
  from streamOff_step [OF ne(1) Cons.prems(2,3)]
  have off: "\<not> isStreaming (page (step ev s))"
    and same: "requestsIssued (step ev s) = requestsIssued s" "detecting (step ev s) \<le> detecting s"
    by blast+
  from Cons.IH [OF ne(2) settled off]
  have "effectsSettled (page (run evs (step ev s)))" "\<not> isStreaming (page (run evs (step ev s)))"
    "requestsIssued (run evs (step ev s)) = requestsIssued (step ev s)"
    "detecting (run evs (step ev s)) \<le> detecting (step ev s)"
    by blast+
  with same show ?case by (simp del: step_fields)
qed

text \<open>What \<open>stopStream\<close> leaves of the recognition status: it does not write it.\<close>

lemma stopStream_leaves_status:
  "recognitionStatus (page (step StopStream s)) = recognitionStatus (page s)"
  by (simp add: stopStream_def)

text \<open>
  C4 (amended). \<open>stopStream()\<close> at any time sets \<open>isStreaming = false\<close>; with the effects
  that follow, the detection interval and the scheduling interval of the recognition
  loop are both cleared. From then on, through any later events, until \<open>isStreaming\<close> is
  set again (the event \<open>StreamStarted\<close>), the stream stays off and both intervals stay
  cleared: neither a detection tick nor a recognition tick does anything, no recognition
  request is issued and no detection pass begins. \<open>stopStream\<close> itself does not touch
  the controller: \<open>isActive\<close> and the rest of the control block, the door status and the
  requests in flight are as before. When \<open>isStreaming\<close> is set again, the detection
  interval is installed again if the models are loaded, and the scheduling interval too
  if \<open>isActive\<close> still holds.
\<close>

theorem stopStream_halts_timers:
  assumes "effectsSettled (page s)" and "StreamStarted \<notin> set evs"
  shows "\<not> isStreaming (page (run evs (step StopStream s)))
   \<and> \<not> detectionIntervalRef (page (run evs (step StopStream s)))
   \<and> \<not> autoRecognitionIntervalRef (page (run evs (step StopStream s)))
   \<and> (\<forall>now cv. step (Tick now cv) (run evs (step StopStream s)) = run evs (step StopStream s))
   \<and> step DetectTick (run evs (step StopStream s)) = run evs (step StopStream s)
   \<and> requestsIssued (run evs (step StopStream s)) = requestsIssued s
   \<and> detecting (run evs (step StopStream s)) \<le> detecting s
   \<and> autoRecognition (page (step StopStream s)) = autoRecognition (page s)
   \<and> doorStatus (page (step StopStream s)) = doorStatus (page s)
   \<and> inFlight (step StopStream s) = inFlight s
   \<and> detectionIntervalRef (page (step StreamStarted (run evs (step StopStream s))))
       = modelsLoaded (page (run evs (step StopStream s)))
   \<and> autoRecognitionIntervalRef (page (step StreamStarted (run evs (step StopStream s))))
       = (isActive (autoRecognition (page (run evs (step StopStream s))))
          \<and> modelsLoaded (page (run evs (step StopStream s))))"
proof -
  let ?s' = "step StopStream s"
  let ?x = "run evs ?s'"
  have settled: "effectsSettled (page ?s')"
    by (rule effectsSettled_step [OF assms(1)])
  have off: "\<not> isStreaming (page ?s')"
    by (simp add: stopStream_def)
  from streamOff_run [OF assms(2) settled off]
  have later: "effectsSettled (page ?x)" "\<not> isStreaming (page ?x)"
    "requestsIssued ?x = requestsIssued ?s'" "detecting ?x \<le> detecting ?s'"
    by blast+
  have refs: "\<not> detectionIntervalRef (page ?x)" "\<not> autoRecognitionIntervalRef (page ?x)"
    using later(1,2) by (simp_all add: effectsSettled_def)
  have ticks: "\<forall>now cv. step (Tick now cv) ?x = ?x"
    using step_tick_without_interval [OF refs(2)] by blast
  have dticks: "step DetectTick ?x = ?x"
    by (rule step_detectTick_without_interval [OF refs(1)])
  have count: "requestsIssued ?x = requestsIssued s" "detecting ?x \<le> detecting s"
    using later(3,4) by simp_all
  have same: "autoRecognition (page ?s') = autoRecognition (page s)"
    "doorStatus (page ?s') = doorStatus (page s)" "inFlight ?s' = inFlight s"
    by (simp_all add: stopStream_def)
  have settled': "effectsSettled (page (step StreamStarted ?x))"
    by (rule effectsSettled_step [OF later(1)])
  have on: "isStreaming (page (step StreamStarted ?x))"
    "modelsLoaded (page (step StreamStarted ?x)) = modelsLoaded (page ?x)"
    "autoRecognition (page (step StreamStarted ?x)) = autoRecognition (page ?x)"
    by simp_all
  have again: "detectionIntervalRef (page (step StreamStarted ?x)) = modelsLoaded (page ?x)"
    "autoRecognitionIntervalRef (page (step StreamStarted ?x))
       = (isActive (autoRecognition (page ?x)) \<and> modelsLoaded (page ?x))"
    using settled' on unfolding effectsSettled_def by (simp_all del: step_fields)
  show ?thesis
    using later(2) refs ticks dticks count same again by blast
qed

theorem stopStream_halts_timers_witness:
  "effectsSettled (page scanningSys)
   \<and> StreamStarted \<notin> set [Tick 6000 okCanvas, DetectTick, ClickStop, ClickStart]
   \<and> \<not> isStreaming
        (page (run [Tick 6000 okCanvas, DetectTick, ClickStop, ClickStart] (step StopStream scanningSys)))
   \<and> \<not> detectionIntervalRef
        (page (run [Tick 6000 okCanvas, DetectTick, ClickStop, ClickStart] (step StopStream scanningSys)))
   \<and> \<not> autoRecognitionIntervalRef
        (page (run [Tick 6000 okCanvas, DetectTick, ClickStop, ClickStart] (step StopStream scanningSys)))
   \<and> step (Tick 7000 okCanvas)
        (run [Tick 6000 okCanvas, DetectTick, ClickStop, ClickStart] (step StopStream scanningSys))
       = run [Tick 6000 okCanvas, DetectTick, ClickStop, ClickStart] (step StopStream scanningSys)
   \<and> requestsIssued
        (run [Tick 6000 okCanvas, DetectTick, ClickStop, ClickStart] (step StopStream scanningSys)) = 1
   \<and> isActive (autoRecognition (page (step StopStream scanningSys)))
   \<and> inFlight (step StopStream scanningSys) = [attemptAt 5000 0]
   \<and> detectionIntervalRef (page (step StreamStarted (step StopStream scanningSys)))
   \<and> autoRecognitionIntervalRef (page (step StreamStarted (step StopStream scanningSys)))"
proof -
  have e: "effectsSettled (page scanningSys)"
    by (simp add: effectsSettled_def scanningSys_def pageAt_fields)
  have n: "StreamStarted \<notin> set [Tick 6000 okCanvas, DetectTick, ClickStop, ClickStart]"
    "StreamStarted \<notin> set []"
    by simp_all
  have i: "inFlight scanningSys = [attemptAt 5000 0]" "requestsIssued scanningSys = 1"
    "isActive (autoRecognition (page scanningSys))"
    by (simp_all add: scanningSys_def pageAt_fields)
  have m: "modelsLoaded (page (step StopStream scanningSys))"
    by (simp add: stopStream_def scanningSys_def pageAt_fields)
  have again: "detectionIntervalRef (page (step StreamStarted (step StopStream scanningSys)))"
    "autoRecognitionIntervalRef (page (step StreamStarted (step StopStream scanningSys)))"
    using stopStream_halts_timers [OF e n(2)] i(3) m
    by (simp_all del: step_fields handleEvent.simps)
  show ?thesis
    using stopStream_halts_timers [OF e n(1)] again e n(1) i
    by (simp del: step_fields handleEvent.simps run.simps)
qed

section \<open>Unsuccessful attempts\<close>

text \<open>
  C5, as stated, fails: a rejected request puts the controller to idle at once, with no
  timeout scheduled and never through the unknown state; and the answer that brings
  \<open>attemptCount\<close> from 9 to \<open>maxAttempts = 10\<close> leaves \<open>cooldownUntil\<close> at \<open>null\<close> and
  \<open>attemptCount\<close> at 10.
\<close>

theorem failure_goes_to_idle_and_cooldown_waits:
  "performAutoRecognition_resume (attemptAt 5000 0) Rejected (pageAt Scanning 0 0)
      = (pageAt Idle 0 0, [])
   \<and> attemptCount (autoRecognition (fst (performAutoRecognition_resume (attemptAt 28000 9)
        (Fulfilled unknownResponse) (pageAt Scanning 9 26000)))) = 10
   \<and> maxAttempts (autoRecognition (fst (performAutoRecognition_resume (attemptAt 28000 9)
        (Fulfilled unknownResponse) (pageAt Scanning 9 26000)))) = 10
   \<and> cooldownUntil (autoRecognition (fst (performAutoRecognition_resume (attemptAt 28000 9)
        (Fulfilled unknownResponse) (pageAt Scanning 9 26000)))) = None"
  by (simp add: resume_rejected resume_unknown [OF response_values(1,2)])
    (simp add: pageAt_def readyPage_def mountedPage_def initialAutoRecognition_def)

text \<open>
  C5 (amended). A well-formed response with \<open>recognized = false\<close> moves the controller to
  unknown and schedules its return to idle after 1000 ms; it counts the attempt and
  leaves \<open>cooldownUntil\<close> and \<open>isActive\<close> unchanged. A rejected request (a transport or
  parse failure) and a failed frame capture move the controller straight to idle,
  without the unknown state and without counting the attempt. None of these arms the
  cooldown: it is armed by a tick that passes the streaming, face, scanning and
  cooldown guards and reads \<open>attemptCount \<ge> maxAttempts\<close>; that tick sets
  \<open>cooldownUntil\<close> to its own \<open>now + 30000\<close> and \<open>attemptCount\<close> to 0, issues no request
  and leaves \<open>isActive\<close> unchanged.
\<close>

theorem unsuccessful_outcomes:
  "(success r \<and> result r = Some res \<and> \<not> recognized res \<longrightarrow>
      recognitionStatus (fst (performAutoRecognition_resume a (Fulfilled r) st)) = Unknown
      \<and> (1000, BackToIdle) \<in> set (snd (performAutoRecognition_resume a (Fulfilled r) st))
      \<and> recognitionStatus
          (fireTimeout BackToIdle (fst (performAutoRecognition_resume a (Fulfilled r) st))) = Idle
      \<and> attemptCount (autoRecognition (fst (performAutoRecognition_resume a (Fulfilled r) st)))
          = attemptCount (autoRecognition st) + 1
      \<and> cooldownUntil (autoRecognition (fst (performAutoRecognition_resume a (Fulfilled r) st)))
          = cooldownUntil (autoRecognition st)
      \<and> isActive (autoRecognition (fst (performAutoRecognition_resume a (Fulfilled r) st)))
          = isActive (autoRecognition st))
   \<and> performAutoRecognition_resume a Rejected st = (st\<lparr>recognitionStatus := Idle\<rparr>, [])
   \<and> (isStreaming seen \<and> detectedFaces seen \<noteq> [] \<and> recognitionStatus seen \<noteq> Scanning
        \<and> \<not> inCooldown (cooldownUntil (autoRecognition seen)) now
        \<and> attemptCount (autoRecognition seen) < maxAttempts (autoRecognition seen)
        \<and> lastAttempt (autoRecognition seen) + 2000 \<le> now
        \<and> \<not> gotImage (captureImage (videoRef st) True cv) \<longrightarrow>
      performAutoRecognition seen st now cv = (st\<lparr>recognitionStatus := Idle\<rparr>, None))
   \<and> (isStreaming seen \<and> detectedFaces seen \<noteq> [] \<and> recognitionStatus seen \<noteq> Scanning
        \<and> \<not> inCooldown (cooldownUntil (autoRecognition seen)) now
        \<and> maxAttempts (autoRecognition seen) \<le> attemptCount (autoRecognition seen) \<longrightarrow>
      performAutoRecognition seen st now cv =
        (st\<lparr>autoRecognition :=
              (autoRecognition st)\<lparr>cooldownUntil := Some (now + 30000), attemptCount := 0\<rparr>\<rparr>,
         None))"
proof (intro conjI impI)
  assume u: "success r \<and> result r = Some res \<and> \<not> recognized res"
  then have eq: "performAutoRecognition_resume a (Fulfilled r) st =
    (st\<lparr>recognitionStatus := Unknown,
        autoRecognition :=
          (autoRecognition st)\<lparr>attemptCount := attemptCount (autoRecognition st) + 1,
             lastAttempt := reqNow a\<rparr>\<rparr>,
     (if seenAttemptCount a \<ge> seenMaxAttempts a - 1 then [(3000, RemoveNotification)] else [])
       @ [(1000, BackToIdle)])"
    by (simp add: resume_unknown)
  show "recognitionStatus (fst (performAutoRecognition_resume a (Fulfilled r) st)) = Unknown"
    "(1000, BackToIdle) \<in> set (snd (performAutoRecognition_resume a (Fulfilled r) st))"
    "recognitionStatus
       (fireTimeout BackToIdle (fst (performAutoRecognition_resume a (Fulfilled r) st))) = Idle"
    "attemptCount (autoRecognition (fst (performAutoRecognition_resume a (Fulfilled r) st)))
          = attemptCount (autoRecognition st) + 1"
    "cooldownUntil (autoRecognition (fst (performAutoRecognition_resume a (Fulfilled r) st)))
          = cooldownUntil (autoRecognition st)"
    "isActive (autoRecognition (fst (performAutoRecognition_resume a (Fulfilled r) st)))
          = isActive (autoRecognition st)"
    by (simp_all add: eq fireTimeout_def)
next
  show "performAutoRecognition_resume a Rejected st = (st\<lparr>recognitionStatus := Idle\<rparr>, [])"
    by (rule resume_rejected)
next
  assume "isStreaming seen \<and> detectedFaces seen \<noteq> [] \<and> recognitionStatus seen \<noteq> Scanning
        \<and> \<not> inCooldown (cooldownUntil (autoRecognition seen)) now
        \<and> attemptCount (autoRecognition seen) < maxAttempts (autoRecognition seen)
        \<and> lastAttempt (autoRecognition seen) + 2000 \<le> now
        \<and> \<not> gotImage (captureImage (videoRef st) True cv)"
  then show "performAutoRecognition seen st now cv = (st\<lparr>recognitionStatus := Idle\<rparr>, None)"
    by (simp add: tick_capture_fails)
next
  assume "isStreaming seen \<and> detectedFaces seen \<noteq> [] \<and> recognitionStatus seen \<noteq> Scanning
        \<and> \<not> inCooldown (cooldownUntil (autoRecognition seen)) now
        \<and> maxAttempts (autoRecognition seen) \<le> attemptCount (autoRecognition seen)"
  then show "performAutoRecognition seen st now cv =
        (st\<lparr>autoRecognition :=
              (autoRecognition st)\<lparr>cooldownUntil := Some (now + 30000), attemptCount := 0\<rparr>\<rparr>,
         None)"
    by (simp add: tick_arms_cooldown)
qed

theorem unsuccessful_outcomes_witness:
  "recognitionStatus (fst (performAutoRecognition_resume (attemptAt 28000 9)
      (Fulfilled unknownResponse) (pageAt Scanning 9 26000))) = Unknown
   \<and> (1000, BackToIdle) \<in> set (snd (performAutoRecognition_resume (attemptAt 28000 9)
      (Fulfilled unknownResponse) (pageAt Scanning 9 26000)))
   \<and> performAutoRecognition (pageAt Idle 10 28000) (pageAt Idle 10 28000) 30000 okCanvas
       = ((pageAt Idle 10 28000)\<lparr>autoRecognition :=
            (autoRecognition (pageAt Idle 10 28000))\<lparr>cooldownUntil := Some 60000,
               attemptCount := 0\<rparr>\<rparr>,
          None)
   \<and> performAutoRecognition (pageAt Idle 0 0) ((pageAt Idle 0 0)\<lparr>videoRef := Some blankVideo\<rparr>)
        5000 okCanvas
       = ((pageAt Idle 0 0)\<lparr>videoRef := Some blankVideo, recognitionStatus := Idle\<rparr>, None)"
proof -
  have g: "\<not> inCooldown (cooldownUntil (autoRecognition (pageAt Idle 10 28000))) 30000"
    "\<not> inCooldown (cooldownUntil (autoRecognition (pageAt Idle 0 0))) 5000"
    "\<not> gotImage (captureImage (videoRef ((pageAt Idle 0 0)\<lparr>videoRef := Some blankVideo\<rparr>)) True okCanvas)"
    by (simp_all add: pageAt_fields inCooldown_def captureImage_def blankVideo_def gotImage_def)
  show ?thesis
    using unsuccessful_outcomes [where r = unknownResponse
        and res = "\<lparr>recognized = False, name = None, best_variation = None\<rparr>"
        and a = "attemptAt 28000 9" and st = "pageAt Scanning 9 26000"]
      unsuccessful_outcomes [where seen = "pageAt Idle 10 28000" and st = "pageAt Idle 10 28000"
        and now = 30000 and cv = okCanvas]
      unsuccessful_outcomes [where seen = "pageAt Idle 0 0"
        and st = "(pageAt Idle 0 0)\<lparr>videoRef := Some blankVideo\<rparr>"
        and now = 5000 and cv = okCanvas]
      response_values g
    by (simp add: pageAt_fields)
qed

section \<open>The cooldown\<close>

lemma run_append: "run (xs @ ys) s = run ys (run xs s)"
  by (induction xs arbitrary: s) simp_all

text \<open>
  Where the cooldown comes from: whatever the event, \<open>cooldownUntil\<close> takes a new
  non-null value only by a tick whose callback reads \<open>attemptCount \<ge> maxAttempts\<close>, and
  the value is that tick's \<open>now + 30000\<close>.
\<close>

lemma cooldown_armed_only_by_tick:
  assumes "cooldownUntil (autoRecognition (page (step ev s))) = Some c"
    and "cooldownUntil (autoRecognition (page s)) \<noteq> Some c"
  shows "maxAttempts (autoRecognition (tickClosure s)) \<le> attemptCount (autoRecognition (tickClosure s))
    \<and> (\<exists>now cv. ev = Tick now cv \<and> c = now + 30000)"
proof (cases ev)
  case (Tick now cv)
  show ?thesis
  proof (cases "autoRecognitionIntervalRef (page s)")
    case True
    have pg: "page (handleEvent ev s) = fst (performAutoRecognition (tickClosure s) (page s) now cv)"
      using True Tick by (simp split: prod.splits option.splits)
    from tick_cooldown_change [of "tickClosure s" "page s" now cv] assms pg
    show ?thesis using Tick by auto
  next
    case False
    then show ?thesis using assms Tick by simp
  qed
next
  case (Settle i t outcome)
  show ?thesis
  proof (cases "i < length (inFlight s)")
    case True
    have pg: "page (handleEvent ev s)
        = fst (performAutoRecognition_resume (inFlight s ! i) outcome (page s))"
      using True Settle by (simp split: prod.splits)
    from resume_cooldown [of "inFlight s ! i" outcome "page s"] assms pg
    show ?thesis by auto
  next
    case False
    then show ?thesis using assms Settle by simp
  qed
next
  case (Fire i)
  then show ?thesis using assms by (simp add: fireTimeout_def split: if_splits Timeout.splits)
next
  case DetectTick
  then show ?thesis using assms by (simp split: if_splits)
next
  case (DetectSettle outcome)
  then show ?thesis using assms
    by (simp add: detectFaces_resume_def split: if_splits Awaited.splits option.splits)
next
  case ClickStart
  then show ?thesis using assms by (simp add: startAutoRecognition_def setAutoRecognition_def)
next
  case ClickStop
  then show ?thesis using assms by (simp add: stopAutoRecognition_def setAutoRecognition_def)
next
  case StopStream
  then show ?thesis using assms by (simp add: stopStream_def)
next
  case StreamStarted
  then show ?thesis using assms by simp
next
  case ModelsReady
  then show ?thesis using assms by simp
qed

text \<open>
  An interval installed by a render with \<open>attemptCount \<ge> maxAttempts\<close> never issues a
  request: each of its ticks ends in the branch that arms the cooldown, or earlier.
\<close>

lemma exhausted_closure_tick:
  assumes "maxAttempts (autoRecognition (tickClosure s)) \<le> attemptCount (autoRecognition (tickClosure s))"
  shows "requestsIssued (step (Tick now cv) s) = requestsIssued s"
    and "tickClosure (step (Tick now cv) s) = tickClosure s"
proof -
  have none: "snd (performAutoRecognition (tickClosure s) (page s) now cv) = None"
    using assms by (simp add: performAutoRecognition_def)
  then obtain p where p: "performAutoRecognition (tickClosure s) (page s) now cv = (p, None)"
    by (cases "performAutoRecognition (tickClosure s) (page s) now cv") simp
  have st: "step (Tick now cv) s = (if autoRecognitionIntervalRef (page s) then s\<lparr>page := p\<rparr> else s)"
    using step_tick(1) [OF _ p] step_tick_without_interval [of s now cv] by simp
  show "requestsIssued (step (Tick now cv) s) = requestsIssued s"
    "tickClosure (step (Tick now cv) s) = tickClosure s"
    by (simp_all add: st del: step_fields)
qed

lemma exhausted_closure_ticks:
  "maxAttempts (autoRecognition (tickClosure s)) \<le> attemptCount (autoRecognition (tickClosure s)) \<Longrightarrow>
   requestsIssued (run (map (\<lambda>t. Tick t cv) ts) s) = requestsIssued s"
proof (induction ts arbitrary: s)
  case Nil
  then show ?case by simp
next
  case (Cons t ts)
  from exhausted_closure_tick [OF Cons.prems, of t cv] Cons.prems
  have "maxAttempts (autoRecognition (tickClosure (step (Tick t cv) s)))
      \<le> attemptCount (autoRecognition (tickClosure (step (Tick t cv) s)))"
    and "requestsIssued (step (Tick t cv) s) = requestsIssued s"
    by simp_all
  with Cons.IH [of "step (Tick t cv) s"] show ?case by simp
qed

text \<open>
  Attempts that end unknown, one after the other, made by a loop whose interval was
  installed by the ready page: each is made and counted.
\<close>

lemma unknownRounds_run:
  "ts \<noteq> [] \<Longrightarrow> list_all (\<lambda>t. 2000 \<le> t) ts \<Longrightarrow>
   run (concat (map unknownRound ts)) (loopAt (pageAt Idle m u) readyPage k)
     = loopAt (pageAt Idle (m + int (length ts)) (last ts)) readyPage (k + length ts)"
proof (induction ts arbitrary: m u k)
  case Nil
  then show ?case by simp
next
  case (Cons t ts)
  then have t: "2000 \<le> t" and rest: "list_all (\<lambda>t. 2000 \<le> t) ts" by simp_all
  have one: "run (unknownRound t) (loopAt (pageAt Idle m u) readyPage k)
      = loopAt (pageAt Idle (m + 1) t) readyPage (k + 1)"
    by (rule unknownRound_run [OF t])
  show ?case
  proof (cases "ts = []")
    case True
    then show ?thesis using one by simp
  next
    case False
    have "run (concat (map unknownRound (t # ts))) (loopAt (pageAt Idle m u) readyPage k)
        = run (concat (map unknownRound ts)) (loopAt (pageAt Idle (m + 1) t) readyPage (k + 1))"
      by (simp only: list.map concat.simps run_append one)
    also have "\<dots> = loopAt (pageAt Idle (m + 1 + int (length ts)) (last ts)) readyPage
        (k + 1 + length ts)"
      by (rule Cons.IH [OF False rest])
    finally show ?thesis using False by (simp add: add.assoc)
  qed
qed

lemma exhaustedSys_reached: "run exhaustTrace readySys = exhaustedSys"
proof -
  have start: "readySys = loopAt (pageAt Idle 0 0) readyPage 0"
    by (simp add: readySys_def loopAt_def readyPage_pageAt)
  have rounds: "run (concat (map unknownRound
        [10000, 12000, 14000, 16000, 18000, 20000, 22000, 24000, 26000, 28000])) readySys
      = loopAt (pageAt Idle 10 28000) readyPage 10"
    unfolding start by (subst unknownRounds_run) simp_all
  have restart: "run [StopStream, StreamStarted] (loopAt (pageAt Idle 10 28000) readyPage 10)
      = exhaustedSys"
    by (simp add: step_def exhaustedSys_def loopAt_def stopStream_def renderEffects_def
        intervalInstalled_def autoRecognitionDeps_def detectionDeps_def autoRecognitionEffect_def
        detectionEffect_def pageAt_def readyPage_def mountedPage_def initialAutoRecognition_def)
  show ?thesis
    unfolding exhaustTrace_def by (subst run_append) (simp only: rounds restart)
qed

text \<open>
  C6: the code at the run \<open>exhaustTrace\<close> followed by ticks. After ten attempts without a
  recognition (no cooldown has been armed: the interval's callback still reads the
  attempt count 0 of the render that installed it) the camera is restarted with the
  loop active, and the interval is installed anew by a render with \<open>attemptCount = 10\<close>.
  Its tick at 30000 arms the cooldown until 60000 and resets the count. Its tick at
  60000, when the deadline has passed, still reads the count 10 and no cooldown: it
  starts no attempt and arms the cooldown again, until 90000, in a state whose count
  is 0; and so does the tick at 90000.
\<close>

theorem cooldown_rearmed_by_stale_tick:
  "run exhaustTrace readySys = exhaustedSys
   \<and> cooldownUntil (autoRecognition (page exhaustedSys)) = None
   \<and> attemptCount (autoRecognition (page exhaustedSys)) = 10
   \<and> run [Tick 30000 okCanvas] exhaustedSys
       = loopAt (cooledPage Idle 28000 60000) (pageAt Idle 10 28000) 10
   \<and> attemptCount (autoRecognition (cooledPage Idle 28000 60000)) = 0
   \<and> maxAttempts (autoRecognition (cooledPage Idle 28000 60000)) = 10
   \<and> run [Tick 30000 okCanvas, Tick 60000 okCanvas] exhaustedSys
       = loopAt (cooledPage Idle 28000 90000) (pageAt Idle 10 28000) 10
   \<and> run [Tick 30000 okCanvas, Tick 60000 okCanvas, Tick 90000 okCanvas] exhaustedSys
       = loopAt (cooledPage Idle 28000 120000) (pageAt Idle 10 28000) 10"
proof -
  let ?c = "pageAt Idle 10 28000"
  have "step (Tick 30000 okCanvas) exhaustedSys
      = exhaustedSys\<lparr>page := cooledPage Idle 28000 60000\<rparr>"
    by (rule step_tick(1)) (simp_all add: exhaustedSys_def pageAt_fields arm_pageAt)
  then have 1: "step (Tick 30000 okCanvas) exhaustedSys
      = loopAt (cooledPage Idle 28000 60000) ?c 10"
    by (simp add: exhaustedSys_def loopAt_def)
  have again: "step (Tick now okCanvas) (loopAt (cooledPage Idle 28000 c) ?c 10)
      = loopAt (cooledPage Idle 28000 (now + 30000)) ?c 10" for now c
  proof -
    have "step (Tick now okCanvas) (loopAt (cooledPage Idle 28000 c) ?c 10)
        = (loopAt (cooledPage Idle 28000 c) ?c 10)\<lparr>page := cooledPage Idle 28000 (now + 30000)\<rparr>"
      by (rule step_tick(1)) (simp_all add: cooledPage_fields arm_cooledPage)
    then show ?thesis by (simp add: loopAt_def)
  qed
  have 2: "step (Tick 60000 okCanvas) (loopAt (cooledPage Idle 28000 60000) ?c 10)
      = loopAt (cooledPage Idle 28000 90000) ?c 10"
    using again [of 60000 60000] by simp
  have 3: "step (Tick 90000 okCanvas) (loopAt (cooledPage Idle 28000 90000) ?c 10)
      = loopAt (cooledPage Idle 28000 120000) ?c 10"
    using again [of 90000 90000] by simp
  have runs: "run [Tick 30000 okCanvas] exhaustedSys = loopAt (cooledPage Idle 28000 60000) ?c 10"
    "run [Tick 30000 okCanvas, Tick 60000 okCanvas] exhaustedSys
       = loopAt (cooledPage Idle 28000 90000) ?c 10"
    "run [Tick 30000 okCanvas, Tick 60000 okCanvas, Tick 90000 okCanvas] exhaustedSys
       = loopAt (cooledPage Idle 28000 120000) ?c 10"
    by (simp_all only: run.simps 1 2 3)
  have vals: "cooldownUntil (autoRecognition (page exhaustedSys)) = None"
    "attemptCount (autoRecognition (page exhaustedSys)) = 10"
    "attemptCount (autoRecognition (cooledPage Idle 28000 60000)) = 0"
    "maxAttempts (autoRecognition (cooledPage Idle 28000 60000)) = 10"
    by (simp_all add: exhaustedSys_def pageAt_fields cooledPage_fields)
  show ?thesis
    by (intro conjI) (rule exhaustedSys_reached vals runs)+
qed

section \<open>Overlapping detection passes\<close>

text \<open>
  C7, as stated, fails: two detection ticks with no pass completed in between leave two
  detection passes in flight.
\<close>

theorem detection_passes_overlap:
  "detecting (run [DetectTick, DetectTick] readySys) = 2"
  by (simp add: step_same_deps readySys_def loopAt_def readyPage_pageAt pageAt_fields
      detectFaces_def readyVideo_def del: step_fields)

lemma detectFaces_iff:
  "detectFaces seen st \<longleftrightarrow>
     (\<exists>v. videoRef st = Some v \<and> canvasRef st \<and> modelsLoaded seen \<and> isStreaming seen
        \<and> videoWidth v \<noteq> 0 \<and> videoHeight v \<noteq> 0 \<and> 2 \<le> readyState v)"
  by (cases "videoRef st") (auto simp: detectFaces_def)

text \<open>
  C7 (amended). The detection poller has no guard against overlapping passes. Every
  300 ms tick that finds the video and canvas elements present, the models loaded, the
  stream on, a non-zero video width and height and \<open>readyState \<ge> 2\<close> begins a new
  detection pass, however many earlier passes are still in flight; a tick is skipped
  only when one of these conditions fails (in the \<open>useFaceDetection\<close> hook: video,
  canvas and models). What the hook's \<open>startDetection\<close> guards against is a second
  interval, not a second pass.
\<close>

theorem detection_tick_ignores_passes_in_flight:
  "(detectionIntervalRef (page s) \<and> detectFaces (page s) (page s) \<longrightarrow>
      detecting (step DetectTick s) = detecting s + 1)
   \<and> (\<not> (detectionIntervalRef (page s) \<and> detectFaces (page s) (page s)) \<longrightarrow>
      detecting (step DetectTick s) = detecting s)
   \<and> (detectFaces seen st \<longleftrightarrow>
        (\<exists>v. videoRef st = Some v \<and> canvasRef st \<and> modelsLoaded seen \<and> isStreaming seen
           \<and> videoWidth v \<noteq> 0 \<and> videoHeight v \<noteq> 0 \<and> 2 \<le> readyState v))
   \<and> (detectFaces_hook vref cref h \<longleftrightarrow> vref \<noteq> None \<and> cref \<and> hookModelsLoaded h)
   \<and> startDetection (startDetection h) = startDetection h
   \<and> (hookIntervalRef h \<longrightarrow> startDetection h = h)"
proof -
  have hook: "detectFaces_hook vref cref h \<longleftrightarrow> vref \<noteq> None \<and> cref \<and> hookModelsLoaded h"
    by (cases vref) (auto simp: detectFaces_hook_def)
  have sd: "startDetection (startDetection h) = startDetection h"
    "hookIntervalRef h \<longrightarrow> startDetection h = h"
    by (simp_all add: startDetection_def)
  show ?thesis
    using hook sd detectFaces_iff [of seen st] by simp
qed

theorem detection_tick_ignores_passes_in_flight_witness:
  "detecting (step DetectTick (readySys\<lparr>detecting := 3\<rparr>)) = 4
   \<and> detecting (step DetectTick (step StopStream (readySys\<lparr>detecting := 3\<rparr>))) = 3"
proof -
  have r: "detectionIntervalRef (page (readySys\<lparr>detecting := 3\<rparr>))"
    "detectFaces (page (readySys\<lparr>detecting := 3\<rparr>)) (page (readySys\<lparr>detecting := 3\<rparr>))"
    "detecting (readySys\<lparr>detecting := 3\<rparr>) = 3"
    "\<not> detectionIntervalRef (page (step StopStream (readySys\<lparr>detecting := 3\<rparr>)))"
    "detecting (step StopStream (readySys\<lparr>detecting := 3\<rparr>)) = 3"
    by (simp_all add: readySys_def loopAt_def readyPage_pageAt pageAt_fields detectFaces_def
        readyVideo_def stopStream_def renderEffects_refs detectionDeps_def)
  show ?thesis
    using detection_tick_ignores_passes_in_flight [where s = "readySys\<lparr>detecting := 3\<rparr>"]
      detection_tick_ignores_passes_in_flight
        [where s = "step StopStream (readySys\<lparr>detecting := 3\<rparr>)"] r
    by (simp del: step_fields handleEvent.simps)
qed

section \<open>A successful recognition\<close>

text \<open>
  C8. When the answer to a request in flight has \<open>recognized = true\<close>, the controller
  enters recognized, the door status becomes unlocked, \<open>isActive\<close> becomes false and the
  scheduling interval is cancelled; exactly one timeout that returns the door to locked
  and the status to idle is scheduled, 5000 ms after the answer (beside the removal of
  the notification). No request is issued by the answer, nor by any later run of events
  without a click on the start button; that click (\<open>startAutoRecognition\<close>) makes the
  loop active again.
\<close>

theorem recognized_unlocks_and_stops:
  assumes "i < length (inFlight s)" and "success r" and "result r = Some res" and "recognized res"
  shows "recognitionStatus (page (step (Settle i t (Fulfilled r)) s)) = Recognized
    \<and> doorStatus (page (step (Settle i t (Fulfilled r)) s)) = Unlocked
    \<and> \<not> isActive (autoRecognition (page (step (Settle i t (Fulfilled r)) s)))
    \<and> \<not> autoRecognitionIntervalRef (page (step (Settle i t (Fulfilled r)) s))
    \<and> timers (step (Settle i t (Fulfilled r)) s)
        = timers s @ [(t + 3000, RemoveNotification), (t + 5000, Relock)]
    \<and> doorStatus (fireTimeout Relock (page (step (Settle i t (Fulfilled r)) s))) = Locked
    \<and> recognitionStatus (fireTimeout Relock (page (step (Settle i t (Fulfilled r)) s))) = Idle
    \<and> requestsIssued (step (Settle i t (Fulfilled r)) s) = requestsIssued s
    \<and> (\<forall>evs. ClickStart \<notin> set evs \<longrightarrow>
          requestsIssued (run evs (step (Settle i t (Fulfilled r)) s)) = requestsIssued s)
    \<and> isActive (autoRecognition (page (step ClickStart (step (Settle i t (Fulfilled r)) s))))"
proof -
  let ?s' = "step (Settle i t (Fulfilled r)) s"
  have h: "handleEvent (Settle i t (Fulfilled r)) s =
      s\<lparr>page := (page s)\<lparr>recognitionStatus := Recognized, doorStatus := Unlocked,
            autoRecognition := (autoRecognition (page s))\<lparr>isActive := False, attemptCount := 0,
               cooldownUntil := None, lastAttempt := reqNow (inFlight s ! i)\<rparr>,
            autoRecognitionIntervalRef := False\<rparr>,
         inFlight := dropNth i (inFlight s),
         timers := timers s @ [(t + 3000, RemoveNotification), (t + 5000, Relock)]\<rparr>"
    using assms by (simp add: resume_recognized)
  have stopped: "loopStopped ?s'"
    by (simp add: loopStopped_def h renderEffects_refs del: handleEvent.simps)
  have later: "\<forall>evs. ClickStart \<notin> set evs \<longrightarrow> requestsIssued (run evs ?s') = requestsIssued s"
    using loopStopped_run [OF _ stopped] by (simp add: h del: handleEvent.simps)
  have start: "isActive (autoRecognition (page (step ClickStart ?s')))"
    by (simp add: startAutoRecognition_def setAutoRecognition_def)
  show ?thesis
    using later start by (simp add: h fireTimeout_def renderEffects_refs del: handleEvent.simps)
qed

theorem recognized_unlocks_and_stops_witness:
  "doorStatus (page (step (Settle 0 6000 (Fulfilled recognizedResponse)) scanningSys)) = Unlocked
   \<and> recognitionStatus (page (step (Settle 0 6000 (Fulfilled recognizedResponse)) scanningSys))
       = Recognized
   \<and> timers (step (Settle 0 6000 (Fulfilled recognizedResponse)) scanningSys)
       = [(9000, RemoveNotification), (11000, Relock)]
   \<and> requestsIssued (run [Tick 7000 okCanvas, Fire 1, Tick 8000 okCanvas, Tick 9000 okCanvas]
        (step (Settle 0 6000 (Fulfilled recognizedResponse)) scanningSys)) = 1"
proof -
  have a: "0 < length (inFlight scanningSys)" "success recognizedResponse"
    "result recognizedResponse =
       Some \<lparr>recognized = True, name = Some ''An'', best_variation = Some ''default''\<rparr>"
    "recognized \<lparr>recognized = True, name = Some ''An'', best_variation = Some ''default''\<rparr>"
    by (simp_all add: scanningSys_def recognizedResponse_def)
  have n: "ClickStart \<notin> set [Tick 7000 okCanvas, Fire 1, Tick 8000 okCanvas, Tick 9000 okCanvas]"
    by simp
  have t: "timers scanningSys = []" "requestsIssued scanningSys = 1"
    by (simp_all add: scanningSys_def)
  show ?thesis
    using recognized_unlocks_and_stops [OF a, of 6000] n t
    by (simp del: step_fields handleEvent.simps run.simps)
qed

end
